theory Spec2Isabelle
  imports Main "HOL-Library.Word"
begin

unbundle bit_operations_syntax

section \<open>The mc scanner of zgrab2: data model\<close>

text \<open>
  The scanner of \<^verbatim>\<open>modules/mc/scanner.go\<close> talks to its peer through a \<^verbatim>\<open>net.Conn\<close>
  only: \<^verbatim>\<open>Write\<close>, \<^verbatim>\<open>Read\<close> and \<^verbatim>\<open>Close\<close>. The peer and the network are the
  environment; they are modelled as the scripted outcomes of the successive calls.
\<close>

type_synonym byte = "8 word"

text \<open>
  Go's \<^verbatim>\<open>int\<close> is 64 bits wide on the 64-bit targets; it is modelled as a 64-bit word
  that is read as two's complement (\<open>sint\<close>).
\<close>

type_synonym goint = "64 word"

text \<open>
  Error values: the sentinel \<^verbatim>\<open>io.EOF\<close>, the errors the scanner makes itself with
  \<^verbatim>\<open>errors.New\<close> and \<^verbatim>\<open>fmt.Errorf\<close> (an error string), and the errors of the
  transport (\<^verbatim>\<open>net.OpError\<close>), opaque to the scanner.
\<close>

datatype error = EOF | errorString string | OpError string

text \<open>
  Modelled from the spec: the scan statuses of the framework (\<^verbatim>\<open>zgrab2.ScanStatus\<close>),
  whose declaration is not part of the sources at hand. The scanner itself names
  \<^verbatim>\<open>SCAN_SUCCESS\<close> and \<^verbatim>\<open>SCAN_PROTOCOL_ERROR\<close>; the others are the coarse transport
  statuses the spec lists (connection refused, timeout, unknown).
\<close>

datatype ScanStatus =
    SCAN_SUCCESS
  | SCAN_CONNECTION_REFUSED
  | SCAN_CONNECTION_TIMEOUT
  | SCAN_IO_TIMEOUT
  | SCAN_PROTOCOL_ERROR
  | SCAN_UNKNOWN_ERROR

text \<open>
  One call of \<^verbatim>\<open>conn.Read\<close> as the environment decides it: the call blocks for
  \<open>r_elapsed\<close> nanoseconds and then returns the bytes \<open>r_bytes\<close> and the error \<open>r_err\<close>
  (\<open>None\<close> is \<^verbatim>\<open>nil\<close>). One call of \<^verbatim>\<open>conn.Write\<close> likewise.
\<close>

record read_event =
  r_elapsed :: nat
  r_bytes :: "byte list"
  r_err :: "error option"

record write_event =
  w_elapsed :: nat
  w_err :: "error option"

text \<open>
  The connection: the clock (nanoseconds), the outcomes of the calls still to come, the
  bytes written so far, and whether \<^verbatim>\<open>Close\<close> was called. The clock advances while a
  call of \<^verbatim>\<open>Read\<close> or \<^verbatim>\<open>Write\<close> blocks; the statements between the calls take no
  time. When the script of a call is used up the peer stays silent with the connection
  open, and the call never returns.
\<close>

record Conn =
  clock :: nat
  reads :: "read_event list"
  writes :: "write_event list"
  sent :: "byte list"
  closed :: bool

text \<open>The scanner after \<^verbatim>\<open>Init\<close>: the two probes, unquoted.\<close>

record Scanner =
  probe1 :: "byte list"
  probe2 :: "byte list"

record Results =
  Banner1 :: string
  Banner2 :: string

text \<open>The target: what \<^verbatim>\<open>target.Open\<close> returns, a connection and an error.\<close>

record ScanTarget =
  open_conn :: Conn
  open_err :: "error option"

section \<open>The connection's operations\<close>

text \<open>
  \<^verbatim>\<open>conn.Read(buf)\<close> with \<open>cap\<close> the length of \<open>buf\<close>: at most \<open>cap\<close> bytes are returned.
  \<open>None\<close>: the call never returns.
\<close>

definition Read :: "nat \<Rightarrow> Conn \<Rightarrow> ((byte list \<times> error option) \<times> Conn) option" where
  "Read cap c =
     (case reads c of
        [] \<Rightarrow> None
      | ev # rest \<Rightarrow>
          Some ((take cap (r_bytes ev), r_err ev),
                c\<lparr>clock := clock c + r_elapsed ev, reads := rest\<rparr>))"

definition Write :: "byte list \<Rightarrow> Conn \<Rightarrow> (error option \<times> Conn) option" where
  "Write p c =
     (case writes c of
        [] \<Rightarrow> None
      | ev # rest \<Rightarrow>
          Some (w_err ev,
                c\<lparr>clock := clock c + w_elapsed ev, writes := rest,
                  sent := (if w_err ev = None then sent c @ p else sent c)\<rparr>))"

definition Close :: "Conn \<Rightarrow> Conn" where
  "Close c = c\<lparr>closed := True\<rparr>"

definition Open :: "ScanTarget \<Rightarrow> Conn \<times> error option" where
  "Open t = (open_conn t, open_err t)"

section \<open>readVarInt\<close>

definition maxBytes :: nat where
  "maxBytes = 5"

text \<open>
  The byte in \<^verbatim>\<open>b[0]\<close> after \<^verbatim>\<open>conn.Read(b[:])\<close> on the fresh array
  \<^verbatim>\<open>var b [1]byte\<close>: the byte read, or the zero the array was made with when the call
  returned no byte.
\<close>

definition b0 :: "byte list \<Rightarrow> byte" where
  "b0 bs = (case bs of [] \<Rightarrow> 0 | x # _ \<Rightarrow> x)"

function readVarInt_loop ::
  "nat \<Rightarrow> goint \<Rightarrow> nat \<Rightarrow> Conn \<Rightarrow> ((goint \<times> error option) \<times> Conn) option" where
  "readVarInt_loop i result shift conn =
     (if i < maxBytes then
        (case Read 1 conn of
           None \<Rightarrow> None
         | Some ((bs, err), conn') \<Rightarrow>
             if err \<noteq> None then Some ((0, err), conn')
             else
               let b = b0 bs;
                   result' = result OR push_bit shift (ucast (b AND 0x7F))
               in if b AND 0x80 = 0 then Some ((result', None), conn')
                  else readVarInt_loop (i + 1) result' (shift + 7) conn')
      else Some ((0, Some (errorString ''varint too long'')), conn))"
  by pat_completeness auto
termination
  by (relation "measure (\<lambda>(i, result, shift, conn). maxBytes - i)") auto

definition readVarInt :: "Conn \<Rightarrow> ((goint \<times> error option) \<times> Conn) option" where
  "readVarInt conn = readVarInt_loop 0 0 0 conn"

section \<open>The bounded read loop\<close>

definition Second :: nat where
  "Second = 1000000000"

text \<open>
  The loops \<^verbatim>\<open>readLoop\<close> and \<^verbatim>\<open>readLoop2\<close> of \<^verbatim>\<open>Scan\<close>, which differ in the name of
  the buffer only. \<open>timeout\<close> is the instant at which the channel of
  \<^verbatim>\<open>time.After(5 * time.Second)\<close> becomes ready; the \<^verbatim>\<open>select\<close> takes that case when it
  is ready and the \<^verbatim>\<open>default\<close> case, the call of \<^verbatim>\<open>conn.Read\<close>, otherwise.
  \<open>len\<close> and \<open>totalRead\<close> stay within 0..32800 and are natural numbers here.
  The loop ends in a \<^verbatim>\<open>return\<close> of \<^verbatim>\<open>Scan\<close> (\<open>Inl\<close>: status and error) or falls through
  to the statement after it (\<open>Inr\<close>: the buffer).
\<close>

function readLoop ::
  "(error \<Rightarrow> ScanStatus) \<Rightarrow> nat \<Rightarrow> nat \<Rightarrow> byte list \<Rightarrow> nat \<Rightarrow> Conn
     \<Rightarrow> (((ScanStatus \<times> error) + byte list) \<times> Conn) option" where
  "readLoop TryGetScanStatus timeout len data totalRead conn =
     (if totalRead < len then
        (if timeout \<le> clock conn then
           Some (Inl (SCAN_PROTOCOL_ERROR, errorString ''read timeout''), conn)
         else
           (case Read (length data - totalRead) conn of
              None \<Rightarrow> None
            | Some ((bs, err), conn') \<Rightarrow>
                (case err of
                   Some e \<Rightarrow>
                     if e \<noteq> EOF then Some (Inl (TryGetScanStatus e, e), conn')
                     else Some (Inr (take totalRead data @ bs
                                       @ drop (totalRead + length bs) data), conn')
                 | None \<Rightarrow>
                     readLoop TryGetScanStatus timeout len
                       (take totalRead data @ bs @ drop (totalRead + length bs) data)
                       (totalRead + length bs) conn')))
      else Some (Inr data, conn))"
  by pat_completeness auto
termination
  by (relation "measure (\<lambda>(f, timeout, len, data, totalRead, conn). length (reads conn))")
     (auto simp: Read_def split: list.splits)

section \<open>hex.EncodeToString\<close>

definition hextable :: string where
  "hextable = ''0123456789abcdef''"

definition EncodeToString :: "byte list \<Rightarrow> string" where
  "EncodeToString src =
     concat (map (\<lambda>v. [hextable ! unat (drop_bit 4 v), hextable ! unat (v AND 0x0F)]) src)"

section \<open>Scan\<close>

text \<open>
  The classification helper \<^verbatim>\<open>zgrab2.TryGetScanStatus\<close> belongs to the framework and is
  not part of the sources at hand: it is a parameter of the model.

  Round 1: the statements of \<^verbatim>\<open>Scan\<close> from the write of \<^verbatim>\<open>probe1\<close> to the end of
  \<^verbatim>\<open>readLoop\<close>. Round 2: from the write of \<^verbatim>\<open>probe2\<close> to the end of \<^verbatim>\<open>readLoop2\<close>.
\<close>

definition round1 ::
  "(error \<Rightarrow> ScanStatus) \<Rightarrow> Scanner \<Rightarrow> Conn
     \<Rightarrow> (((ScanStatus \<times> error) + byte list) \<times> Conn) option" where
  "round1 TryGetScanStatus s conn =
     (case Write (probe1 s) conn of
        None \<Rightarrow> None
      | Some (Some err, conn1) \<Rightarrow> Some (Inl (TryGetScanStatus err, err), conn1)
      | Some (None, conn1) \<Rightarrow>
          (case readVarInt conn1 of
             None \<Rightarrow> None
           | Some ((len, Some readErr), conn2) \<Rightarrow>
               Some (Inl (TryGetScanStatus readErr, readErr), conn2)
           | Some ((len, None), conn2) \<Rightarrow>
               if 32800 <s len then
                 Some (Inl (SCAN_PROTOCOL_ERROR, errorString ''banner too long''), conn2)
               else if len <s 1 then
                 Some (Inl (SCAN_PROTOCOL_ERROR, errorString ''zero/negative banner length''),
                       conn2)
               else
                 readLoop TryGetScanStatus (clock conn2 + 5 * Second) (nat (sint len))
                   (replicate (nat (sint len)) 0) 0 conn2))"

definition round2 ::
  "(error \<Rightarrow> ScanStatus) \<Rightarrow> Scanner \<Rightarrow> Conn
     \<Rightarrow> (((ScanStatus \<times> error) + byte list) \<times> Conn) option" where
  "round2 TryGetScanStatus s conn =
     (case Write (probe2 s) conn of
        None \<Rightarrow> None
      | Some (Some err, conn1) \<Rightarrow> Some (Inl (TryGetScanStatus err, err), conn1)
      | Some (None, conn1) \<Rightarrow>
          (case readVarInt conn1 of
             None \<Rightarrow> None
           | Some ((len, Some readErr), conn2) \<Rightarrow>
               Some (Inl (TryGetScanStatus readErr, readErr), conn2)
           | Some ((len, None), conn2) \<Rightarrow>
               if len \<noteq> 9 then
                 Some (Inl (SCAN_PROTOCOL_ERROR, errorString ''banner length mismatch''), conn2)
               else
                 readLoop TryGetScanStatus (clock conn2 + 5 * Second) (nat (sint len))
                   (replicate (nat (sint len)) 0) 0 conn2))"

text \<open>
  \<^verbatim>\<open>Scan\<close> returns the status, the result (\<open>None\<close> is \<^verbatim>\<open>nil\<close>) and the error
  (\<open>None\<close> is \<^verbatim>\<open>nil\<close>); the model returns the connection as \<^verbatim>\<open>Scan\<close> leaves it as
  well. \<open>None\<close>: \<^verbatim>\<open>Scan\<close> never returns. The deferred \<^verbatim>\<open>conn.Close()\<close> runs on every
  return after a successful \<^verbatim>\<open>Open\<close>.
\<close>

definition Scan ::
  "(error \<Rightarrow> ScanStatus) \<Rightarrow> Scanner \<Rightarrow> ScanTarget
     \<Rightarrow> ((ScanStatus \<times> Results option \<times> error option) \<times> Conn) option" where
  "Scan TryGetScanStatus s target =
     (case Open target of
        (conn, Some err) \<Rightarrow> Some ((TryGetScanStatus err, None, Some err), conn)
      | (conn, None) \<Rightarrow>
          (case round1 TryGetScanStatus s conn of
             None \<Rightarrow> None
           | Some (Inl (status, err), conn1) \<Rightarrow> Some ((status, None, Some err), Close conn1)
           | Some (Inr data, conn1) \<Rightarrow>
               (case round2 TryGetScanStatus s conn1 of
                  None \<Rightarrow> None
                | Some (Inl (status, err), conn2) \<Rightarrow>
                    Some ((status, None, Some err), Close conn2)
                | Some (Inr data2, conn2) \<Rightarrow>
                    Some ((SCAN_SUCCESS,
                           Some \<lparr>Banner1 = EncodeToString data, Banner2 = EncodeToString data2\<rparr>,
                           None),
                          Close conn2))))"

section \<open>Describing the peer\<close>

text \<open>
  The call of \<^verbatim>\<open>conn.Read\<close> that returns after \<open>fst tb\<close> nanoseconds with the single
  byte \<open>snd tb\<close> and no error.
\<close>

definition one_byte :: "nat \<times> byte \<Rightarrow> read_event" where
  "one_byte tb = \<lparr>r_elapsed = fst tb, r_bytes = [snd tb], r_err = None\<rparr>"

text \<open>
  What the loop of \<^verbatim>\<open>readVarInt\<close> adds to \<^verbatim>\<open>result\<close> for the bytes \<open>bs\<close> when the
  first of them is shifted by \<open>shift\<close>.
\<close>

fun groups :: "nat \<Rightarrow> byte list \<Rightarrow> goint" where
  "groups shift [] = 0"
| "groups shift (b # bs) = push_bit shift (ucast (b AND 0x7F)) OR groups (shift + 7) bs"

text \<open>An idle connection on which the calls of \<^verbatim>\<open>Read\<close> return \<open>rs\<close>.\<close>

definition conn_reading :: "read_event list \<Rightarrow> Conn" where
  "conn_reading rs = \<lparr>clock = 0, reads = rs, writes = [], sent = [], closed = False\<rparr>"

text \<open>
  The call of \<^verbatim>\<open>conn.Read\<close> that returns after \<open>d\<close> nanoseconds with the bytes \<open>bs\<close> and
  no error; the call that returns after \<open>d\<close> nanoseconds with no byte and \<^verbatim>\<open>io.EOF\<close>; the
  call of \<^verbatim>\<open>conn.Write\<close> that returns at once with no error.
\<close>

definition chunk :: "nat \<Rightarrow> byte list \<Rightarrow> read_event" where
  "chunk d bs = \<lparr>r_elapsed = d, r_bytes = bs, r_err = None\<rparr>"

definition chunk_of :: "nat \<times> byte list \<Rightarrow> read_event" where
  "chunk_of db = chunk (fst db) (snd db)"

definition eof_after :: "nat \<Rightarrow> read_event" where
  "eof_after d = \<lparr>r_elapsed = d, r_bytes = [], r_err = Some EOF\<rparr>"

text \<open>
  The read loop with deadline \<open>timeout\<close> and buffer size \<open>len\<close>, having \<open>totalRead\<close> bytes
  at the instant \<open>now\<close>, comes to ask for each of the chunks \<open>dbs\<close> (delay and bytes): when
  it asks, the buffer is not full and the deadline has not passed, and the chunk fits.
\<close>

fun in_time :: "nat \<Rightarrow> nat \<Rightarrow> nat \<Rightarrow> nat \<Rightarrow> (nat \<times> byte list) list \<Rightarrow> bool" where
  "in_time timeout len totalRead now [] = True"
| "in_time timeout len totalRead now (db # dbs) =
     (totalRead < len \<and> now < timeout \<and> totalRead + length (snd db) \<le> len \<and>
      in_time timeout len (totalRead + length (snd db)) (now + fst db) dbs)"

definition write_ok :: write_event where
  "write_ok = \<lparr>w_elapsed = 0, w_err = None\<rparr>"

text \<open>
  A target that opens without error, takes both probes and answers the calls of
  \<^verbatim>\<open>Read\<close> with \<open>rs\<close>.
\<close>

definition peer :: "read_event list \<Rightarrow> ScanTarget" where
  "peer rs =
     \<lparr>open_conn = \<lparr>clock = 0, reads = rs, writes = [write_ok, write_ok], sent = [],
                   closed = False\<rparr>,
      open_err = None\<rparr>"

text \<open>The connection of \<open>peer rs\<close> once \<^verbatim>\<open>Scan\<close> has sent \<open>out\<close>, at the instant \<open>t\<close>.\<close>

definition hung_up :: "nat \<Rightarrow> read_event list \<Rightarrow> write_event list \<Rightarrow> byte list \<Rightarrow> Conn" where
  "hung_up t rs ws out = \<lparr>clock = t, reads = rs, writes = ws, sent = out, closed = True\<rparr>"

text \<open>An open connection at the instant \<open>t\<close>, with \<open>out\<close> sent so far.\<close>

definition open_at :: "nat \<Rightarrow> read_event list \<Rightarrow> write_event list \<Rightarrow> byte list \<Rightarrow> Conn" where
  "open_at t rs ws out = \<lparr>clock = t, reads = rs, writes = ws, sent = out, closed = False\<rparr>"

text \<open>
  The call of \<^verbatim>\<open>conn.Read\<close> that returns after \<open>d\<close> nanoseconds with the bytes \<open>bs\<close> and
  the error \<open>e\<close>; the call of \<^verbatim>\<open>conn.Write\<close> that returns at once with the error \<open>e\<close>.
\<close>

definition read_fails :: "nat \<Rightarrow> byte list \<Rightarrow> error \<Rightarrow> read_event" where
  "read_fails d bs e = \<lparr>r_elapsed = d, r_bytes = bs, r_err = Some e\<rparr>"

definition write_fails :: "error \<Rightarrow> write_event" where
  "write_fails e = \<lparr>w_elapsed = 0, w_err = Some e\<rparr>"

text \<open>
  A target that opens without error and answers the calls of \<^verbatim>\<open>Write\<close> with \<open>ws\<close> and
  the calls of \<^verbatim>\<open>Read\<close> with \<open>rs\<close>; a target on which \<^verbatim>\<open>Open\<close> fails with \<open>e\<close>.
\<close>

definition peer_writing :: "write_event list \<Rightarrow> read_event list \<Rightarrow> ScanTarget" where
  "peer_writing ws rs =
     \<lparr>open_conn = \<lparr>clock = 0, reads = rs, writes = ws, sent = [], closed = False\<rparr>,
      open_err = None\<rparr>"

definition failed_open :: "error \<Rightarrow> ScanTarget" where
  "failed_open e =
     \<lparr>open_conn = \<lparr>clock = 0, reads = [], writes = [], sent = [], closed = False\<rparr>,
      open_err = Some e\<rparr>"

text \<open>The scanner with the default flags: both probes are a newline.\<close>

definition default_scanner :: Scanner where
  "default_scanner = \<lparr>probe1 = [0x0A], probe2 = [0x0A]\<rparr>"

text \<open>
  Modelled from the spec: \<^verbatim>\<open>zgrab2.TryGetScanStatus\<close> is not part of the sources at hand.
  This is one helper of the kind the spec describes, which "maps a transport-level error
  into a coarse scan status (e.g., connection-refused vs. timeout vs. unknown)". It is
  used for concrete runs only; the theorems hold for every helper.
\<close>

definition transport_status :: "error \<Rightarrow> ScanStatus" where
  "transport_status err =
     (case err of
        OpError m \<Rightarrow>
          if m = ''connection refused'' then SCAN_CONNECTION_REFUSED
          else if m = ''i/o timeout'' then SCAN_IO_TIMEOUT
          else SCAN_UNKNOWN_ERROR
      | _ \<Rightarrow> SCAN_UNKNOWN_ERROR)"

text \<open>
  Lowercase hexadecimal as the spec has it: two digits for each byte, the high four bits
  first, with the digits \<open>0\<close> to \<open>9\<close> and \<open>a\<close> to \<open>f\<close>.
\<close>

definition lower_hex_digit :: "nat \<Rightarrow> char" where
  "lower_hex_digit n = (if n < 10 then ''0123456789'' ! n else ''abcdef'' ! (n - 10))"

definition lower_hex :: "byte list \<Rightarrow> string" where
  "lower_hex bs = concat (map (\<lambda>b. [lower_hex_digit (unat b div 16), lower_hex_digit (unat b mod 16)]) bs)"

text \<open>
  The fields of \<^verbatim>\<open>Results\<close> that reach the serialized output under the tags
  \<^verbatim>\<open>json:"banner1,omitempty"\<close> and \<^verbatim>\<open>json:"banner2,omitempty"\<close>: a field that holds the
  empty string is left out.
\<close>

definition json_fields :: "Results \<Rightarrow> (string \<times> string) list" where
  "json_fields r =
     (if Banner1 r = [] then [] else [(''banner1'', Banner1 r)]) @
     (if Banner2 r = [] then [] else [(''banner2'', Banner2 r)])"

section \<open>Words\<close>

lemma low7: "(b::byte) AND 0x7F = take_bit 7 b"
proof -
  have "(0x7F::byte) = mask 7" by (simp add: mask_eq_exp_minus_1)
  then show ?thesis by (simp add: take_bit_eq_mask)
qed

lemma bit7: "bit ((b::byte) AND 0x80) n = (n = 7 \<and> bit b 7)"
proof -
  have e: "(0x80::byte) = 2 ^ 7" by simp
  show ?thesis
    unfolding e by (auto simp add: bit_and_iff bit_exp_iff simp del: power_numeral)
qed

lemma small_byte:
  fixes b :: byte
  assumes "b < 128"
  shows "b AND 0x7F = b" and "b AND 0x80 = 0"
proof -
  have "uint b < 2 ^ 7" using assms by (simp add: word_less_iff_unsigned [where 'a = int])
  then have "take_bit 7 (uint b) = uint b" by (intro take_bit_int_eq_self) simp_all
  then have "uint (take_bit 7 b) = uint b" by (simp add: unsigned_take_bit_eq)
  then have t: "take_bit 7 b = b" by (rule unsigned_word_eqI)
  then show "b AND 0x7F = b" by (simp add: low7)
  have nb: "\<not> bit b 7" using t by (metis bit_take_bit_iff less_irrefl)
  show "b AND 0x80 = 0" by (rule bit_eqI) (simp add: bit7 nb)
qed

lemma step_bound:
  fixes r :: goint
  assumes "take_bit s r = r"
  shows "take_bit (s + 7) (r OR push_bit s (ucast ((b::byte) AND 0x7F))) = r OR push_bit s (ucast (b AND 0x7F))"
proof (rule bit_eqI)
  fix n
  have r: "bit r n \<Longrightarrow> n < s" 
    using assms by (metis bit_take_bit_iff)
  show "bit (take_bit (s + 7) (r OR push_bit s (ucast (b AND 0x7F)))) n = bit (r OR push_bit s (ucast (b AND 0x7F))) n"
    unfolding low7 using r by (auto simp: bit_simps)
qed

lemma fits_mono: "take_bit m (w::goint) = w \<Longrightarrow> m \<le> n \<Longrightarrow> take_bit n w = w"
  by (metis min.absorb2 take_bit_take_bit)

lemma small_uint:
  fixes r :: goint
  assumes "take_bit s r = r" "s \<le> 35"
  shows "uint r < 2 ^ 35"
proof -
  have "uint r = take_bit s (uint r)" using assms(1) by (metis unsigned_take_bit_eq)
  then have "uint r < 2 ^ s" by (metis take_bit_int_less_exp)
  also have "(2::int) ^ s \<le> 2 ^ 35" using assms(2) by (intro power_increasing) auto
  finally show ?thesis .
qed

lemma sint_small:
  fixes r :: goint
  assumes "uint r < 2 ^ 35"
  shows "sint r = uint r"
proof -
  have lo: "- (2 ^ 63) \<le> uint r" by (rule order_trans [of _ 0]) simp_all
  have hi: "uint r < 2 ^ 63" using assms by simp
  show ?thesis
    unfolding sint_uint using lo hi by (simp add: signed_take_bit_int_eq_self)
qed

lemma sless1:
  fixes v :: goint
  assumes "0 \<le> sint v"
  shows "(v <s 1) = (v = 0)"
proof
  assume "v <s 1"
  then have "sint v < 1" by (simp add: word_sless_alt)
  with assms have "sint v = 0" by simp
  then show "v = 0" by (simp add: signed_eq_0_iff)
next
  assume "v = 0"
  then show "v <s 1" by (simp add: word_sless_alt)
qed

section \<open>The value accumulated by readVarInt\<close>

lemma groups_bits: "bit (groups s bs) n \<Longrightarrow> s \<le> n"
proof (induction bs arbitrary: s)
  case Nil
  then show ?case by simp
next
  case (Cons b bs)
  from Cons.prems have "bit (push_bit s (ucast (b AND 0x7F) :: goint)) n \<or> bit (groups (s + 7) bs) n"
    by (simp add: bit_or_iff)
  then show ?case
  proof
    assume "bit (push_bit s (ucast (b AND 0x7F) :: goint)) n"
    then show ?thesis by (simp add: bit_push_bit_iff)
  next
    assume "bit (groups (s + 7) bs) n"
    then have "s + 7 \<le> n" by (rule Cons.IH)
    then show ?thesis by simp
  qed
qed

lemma group_bits:
  "bit (push_bit s (ucast ((b::byte) AND 0x7F)) :: goint) n \<Longrightarrow> s \<le> n \<and> n < s + 7"
  unfolding low7 by (auto simp: bit_simps)

lemma group_disjoint:
  "push_bit s (ucast ((b::byte) AND 0x7F)) OR groups (s + 7) bs
     = push_bit s (ucast (b AND 0x7F)) + groups (s + 7) bs"
proof -
  have "\<not> bit (push_bit s (ucast (b AND 0x7F)) :: goint) n \<or> \<not> bit (groups (s + 7) bs) n" for n
    using group_bits [of s b n] groups_bits [of "s + 7" bs n] by auto
  then show ?thesis by (simp add: disjunctive_add)
qed

lemma groups_sum:
  "groups s bs = (\<Sum>k<length bs. push_bit (s + 7 * k) (ucast (bs ! k AND 0x7F)))"
proof (induction bs arbitrary: s)
  case Nil
  then show ?case by simp
next
  case (Cons b bs)
  have "groups s (b # bs) = push_bit s (ucast (b AND 0x7F)) + groups (s + 7) bs"
    by (simp add: group_disjoint)
  also have "groups (s + 7) bs = (\<Sum>k<length bs. push_bit (s + 7 + 7 * k) (ucast (bs ! k AND 0x7F)))"
    by (rule Cons.IH)
  finally show ?case
    by (simp add: sum.lessThan_Suc_shift add.assoc del: sum.lessThan_Suc)
qed

lemma group_uint:
  assumes "s + 7 \<le> 64"
  shows "uint (push_bit s (ucast ((b::byte) AND 0x7F)) :: goint) = uint (b AND 0x7F) * 2 ^ s"
proof -
  have small: "uint (b AND 0x7F) < 2 ^ 7"
    unfolding low7 using take_bit_int_less_exp [of 7 "uint b"] by (simp add: unsigned_take_bit_eq)
  have "uint (b AND 0x7F) * 2 ^ s < 2 ^ 7 * 2 ^ s"
    using small by (intro mult_strict_right_mono) simp_all
  also have "\<dots> = 2 ^ (s + 7)" by (simp add: power_add)
  also have "\<dots> \<le> (2::int) ^ 64" using assms by (intro power_increasing) simp_all
  finally have lt: "uint (b AND 0x7F) * 2 ^ s < 2 ^ 64" .
  have "take_bit 64 (uint (b AND 0x7F)) = uint (b AND 0x7F)"
    using small by (intro take_bit_int_eq_self) simp_all
  then have "uint (ucast (b AND 0x7F) :: goint) = uint (b AND 0x7F)"
    by (simp add: unsigned_ucast_eq)
  then have "push_bit s (uint (ucast (b AND 0x7F) :: goint)) = uint (b AND 0x7F) * 2 ^ s"
    by (simp only: push_bit_eq_mult)
  moreover have "uint (push_bit s (ucast (b AND 0x7F)) :: goint)
      = take_bit 64 (push_bit s (uint (ucast (b AND 0x7F) :: goint)))"
    by (simp add: unsigned_push_bit_eq)
  ultimately have "uint (push_bit s (ucast (b AND 0x7F)) :: goint) = take_bit 64 (uint (b AND 0x7F) * 2 ^ s)"
    by simp
  also have "\<dots> = uint (b AND 0x7F) * 2 ^ s"
    using lt by (intro take_bit_int_eq_self) simp_all
  finally show ?thesis .
qed

lemma groups_uint:
  "s + 7 * length bs \<le> 64 \<Longrightarrow>
   uint (groups s bs) = (\<Sum>k<length bs. uint (bs ! k AND 0x7F) * 2 ^ (s + 7 * k))"
proof (induction bs arbitrary: s)
  case Nil
  then show ?case by simp
next
  case (Cons b bs)
  have d: "\<not> bit (uint (push_bit s (ucast (b AND 0x7F)) :: goint)) n \<or> \<not> bit (uint (groups (s + 7) bs)) n" for n
    using group_bits [of s b n] groups_bits [of "s + 7" bs n] by (auto simp: bit_uint_iff)
  have "uint (groups s (b # bs)) = uint (push_bit s (ucast (b AND 0x7F)) :: goint) OR uint (groups (s + 7) bs)"
    by (simp add: unsigned_or_eq)
  also have "\<dots> = uint (push_bit s (ucast (b AND 0x7F)) :: goint) + uint (groups (s + 7) bs)"
    using d by (simp add: disjunctive_add)
  also have "uint (push_bit s (ucast (b AND 0x7F)) :: goint) = uint (b AND 0x7F) * 2 ^ s"
    using Cons.prems by (intro group_uint) simp
  also have "uint (groups (s + 7) bs) = (\<Sum>k<length bs. uint (bs ! k AND 0x7F) * 2 ^ (s + 7 + 7 * k))"
    using Cons.prems by (intro Cons.IH) simp
  finally show ?case
    by (simp add: sum.lessThan_Suc_shift add.assoc del: sum.lessThan_Suc)
qed

section \<open>Runs of readVarInt\<close>

declare readVarInt_loop.simps [simp del]

lemma readVarInt_loop_fits:
  "readVarInt_loop i result shift conn = Some ((v, None), conn') \<Longrightarrow>
   take_bit shift result = result \<Longrightarrow> shift = 7 * i \<Longrightarrow>
   take_bit 35 v = v"
proof (induction i result shift conn rule: readVarInt_loop.induct)
  case (1 i result shift conn)
  show ?case
  proof (cases "i < maxBytes")
    case False
    with "1.prems"(1) show ?thesis by (simp add: readVarInt_loop.simps [of i])
  next
    case True
    then obtain bs conn1 where rd: "Read 1 conn = Some ((bs, None), conn1)"
      using "1.prems"(1) by (auto simp: readVarInt_loop.simps [of i] split: option.splits if_splits)
    let ?r = "result OR push_bit shift (ucast (b0 bs AND 0x7F))"
    have fit: "take_bit (shift + 7) ?r = ?r" using "1.prems"(2) by (rule step_bound)
    show ?thesis
    proof (cases "b0 bs AND 0x80 = 0")
      case True
      with rd \<open>i < maxBytes\<close> "1.prems"(1) have "v = ?r"
        by (simp add: readVarInt_loop.simps [of i] Let_def)
      moreover have "shift + 7 \<le> 35" using \<open>i < maxBytes\<close> "1.prems"(3) by (simp add: maxBytes_def)
      ultimately show ?thesis using fit
        by (metis fits_mono)
    next
      case False
      with rd \<open>i < maxBytes\<close> "1.prems"(1)
      have "readVarInt_loop (i + 1) ?r (shift + 7) conn1 = Some ((v, None), conn')"
        by (simp add: readVarInt_loop.simps [of i] Let_def)
      then show ?thesis
        using fit "1.prems"(3)
        by (intro "1.IH" [OF \<open>i < maxBytes\<close> rd refl refl _ refl refl False]) simp_all
    qed
  qed
qed

lemma Read_one_byte:
  "reads conn = one_byte tb # rest \<Longrightarrow>
   Read 1 conn = Some (([snd tb], None), conn\<lparr>clock := clock conn + fst tb, reads := rest\<rparr>)"
  by (simp add: Read_def one_byte_def)

lemma readVarInt_loop_run:
  "reads conn = map one_byte tbs @ rest \<Longrightarrow> tbs \<noteq> [] \<Longrightarrow> i + length tbs \<le> maxBytes \<Longrightarrow>
   \<forall>b \<in> set (butlast (map snd tbs)). b AND 0x80 \<noteq> 0 \<Longrightarrow> last (map snd tbs) AND 0x80 = 0 \<Longrightarrow>
   readVarInt_loop i result shift conn =
     Some ((result OR groups shift (map snd tbs), None),
           conn\<lparr>clock := clock conn + sum_list (map fst tbs), reads := rest\<rparr>)"
proof (induction tbs arbitrary: i result shift conn)
  case Nil
  then show ?case by simp
next
  case (Cons tb tbs)
  let ?c = "conn\<lparr>clock := clock conn + fst tb, reads := map one_byte tbs @ rest\<rparr>"
  have i: "i < maxBytes" using Cons.prems(3) by simp
  have rd: "Read 1 conn = Some (([snd tb], None), ?c)"
    by (rule Read_one_byte) (simp add: Cons.prems(1))
  show ?case
  proof (cases "tbs = []")
    case True
    with Cons.prems(5) have "snd tb AND 0x80 = 0" by simp
    with i rd True show ?thesis
      by (simp add: readVarInt_loop.simps [of i] b0_def Let_def)
  next
    case False
    with Cons.prems(4) have cont: "snd tb AND 0x80 \<noteq> 0" by simp
    have "readVarInt_loop (i + 1) (result OR push_bit shift (ucast (snd tb AND 0x7F))) (shift + 7) ?c =
       Some (((result OR push_bit shift (ucast (snd tb AND 0x7F))) OR groups (shift + 7) (map snd tbs), None),
             ?c\<lparr>clock := clock ?c + sum_list (map fst tbs), reads := rest\<rparr>)"
      using False Cons.prems by (intro Cons.IH) simp_all
    with i rd cont show ?thesis
      by (simp add: readVarInt_loop.simps [of i] b0_def Let_def or.assoc add.assoc)
  qed
qed

lemma readVarInt_loop_malformed:
  "reads conn = map one_byte tbs @ rest \<Longrightarrow> i + length tbs = maxBytes \<Longrightarrow>
   \<forall>b \<in> set (map snd tbs). b AND 0x80 \<noteq> 0 \<Longrightarrow>
   readVarInt_loop i result shift conn =
     Some ((0, Some (errorString ''varint too long'')),
           conn\<lparr>clock := clock conn + sum_list (map fst tbs), reads := rest\<rparr>)"
proof (induction tbs arbitrary: i result shift conn)
  case Nil
  then have "conn\<lparr>clock := clock conn + sum_list (map fst []), reads := rest\<rparr> = conn"
    by simp
  moreover have "\<not> i < maxBytes" using Nil by simp
  ultimately show ?case by (simp add: readVarInt_loop.simps [of i])
next
  case (Cons tb tbs)
  let ?c = "conn\<lparr>clock := clock conn + fst tb, reads := map one_byte tbs @ rest\<rparr>"
  have i: "i < maxBytes" using Cons.prems(2) by simp
  have rd: "Read 1 conn = Some (([snd tb], None), ?c)"
    by (rule Read_one_byte) (simp add: Cons.prems(1))
  have cont: "snd tb AND 0x80 \<noteq> 0" using Cons.prems(3) by simp
  have "readVarInt_loop (i + 1) (result OR push_bit shift (ucast (snd tb AND 0x7F))) (shift + 7) ?c =
       Some ((0, Some (errorString ''varint too long'')),
             ?c\<lparr>clock := clock ?c + sum_list (map fst tbs), reads := rest\<rparr>)"
    using Cons.prems by (intro Cons.IH) simp_all
  with i rd cont show ?case
    by (simp add: readVarInt_loop.simps [of i] b0_def Let_def add.assoc)
qed

lemma readVarInt_loop_error_zero:
  "readVarInt_loop i result shift conn = Some ((v, Some e), conn') \<Longrightarrow> v = 0"
proof (induction i result shift conn rule: readVarInt_loop.induct)
  case (1 i result shift conn)
  show ?case
  proof (cases "i < maxBytes")
    case False
    with "1.prems" show ?thesis by (simp add: readVarInt_loop.simps [of i])
  next
    case True
    show ?thesis
    proof (cases "Read 1 conn")
      case None
      with True "1.prems" show ?thesis by (simp add: readVarInt_loop.simps [of i])
    next
      case (Some a)
      obtain bs err conn1 where a: "a = ((bs, err), conn1)" by (metis surj_pair)
      show ?thesis
      proof (cases "err \<noteq> None")
        case True
        with \<open>i < maxBytes\<close> Some a "1.prems" show ?thesis
          by (simp add: readVarInt_loop.simps [of i])
      next
        case False
        show ?thesis
        proof (cases "b0 bs AND 0x80 = 0")
          case True
          with \<open>i < maxBytes\<close> Some a False "1.prems" show ?thesis
            by (simp add: readVarInt_loop.simps [of i] Let_def)
        next
          case cont: False
          with \<open>i < maxBytes\<close> Some a False "1.prems"
          have "readVarInt_loop (i + 1) (result OR push_bit shift (ucast (b0 bs AND 0x7F))) (shift + 7) conn1
                  = Some ((v, Some e), conn')"
            by (simp add: readVarInt_loop.simps [of i] Let_def)
          then show ?thesis
            using Some a
            by (intro "1.IH" [OF \<open>i < maxBytes\<close> _ refl refl False refl refl cont]) simp_all
        qed
      qed
    qed
  qed
qed

section \<open>The returns of Scan\<close>

declare readLoop.simps [simp del]




lemma Scan_cases:
  assumes "Scan cls s target = Some ((status, res, err), c)"
  shows "(\<exists>e. open_err target = Some e \<and> status = cls e \<and> res = None \<and> err = Some e
              \<and> c = open_conn target)
       \<or> (\<exists>e c1. open_err target = None \<and>
              round1 cls s (open_conn target) = Some (Inl (status, e), c1) \<and>
              res = None \<and> err = Some e \<and> c = Close c1)
       \<or> (\<exists>data c1 e c2. open_err target = None \<and>
              round1 cls s (open_conn target) = Some (Inr data, c1) \<and>
              round2 cls s c1 = Some (Inl (status, e), c2) \<and>
              res = None \<and> err = Some e \<and> c = Close c2)
       \<or> (\<exists>data c1 data2 c2. open_err target = None \<and>
              round1 cls s (open_conn target) = Some (Inr data, c1) \<and>
              round2 cls s c1 = Some (Inr data2, c2) \<and>
              status = SCAN_SUCCESS \<and>
              res = Some \<lparr>Banner1 = EncodeToString data, Banner2 = EncodeToString data2\<rparr> \<and>
              err = None \<and> c = Close c2)"
proof (cases "open_err target")
  case (Some e)
  with assms have "status = cls e \<and> res = None \<and> err = Some e \<and> c = open_conn target"
    by (simp add: Scan_def Open_def)
  with Some show ?thesis by blast
next
  case None
  note op = None
  show ?thesis
  proof (cases "round1 cls s (open_conn target)")
    case None
    with op assms show ?thesis by (simp add: Scan_def Open_def)
  next
    case (Some r1)
    note s1 = Some
    obtain out1 c1 where r1: "r1 = (out1, c1)" by (cases r1)
    show ?thesis
    proof (cases out1)
      case (Inl se)
      obtain st e where se: "se = (st, e)" by (cases se)
      with op s1 r1 Inl assms
      have "status = st \<and> res = None \<and> err = Some e \<and> c = Close c1"
        by (simp add: Scan_def Open_def)
      with op s1 r1 Inl se show ?thesis by blast
    next
      case (Inr data)
      note d1 = Inr
      show ?thesis
      proof (cases "round2 cls s c1")
        case None
        with op s1 r1 d1 assms show ?thesis by (simp add: Scan_def Open_def)
      next
        case (Some r2)
        note s2 = Some
        obtain out2 c2 where r2: "r2 = (out2, c2)" by (cases r2)
        show ?thesis
        proof (cases out2)
          case (Inl se)
          obtain st e where se: "se = (st, e)" by (cases se)
          with op s1 r1 d1 s2 r2 Inl assms
          have "status = st \<and> res = None \<and> err = Some e \<and> c = Close c2"
            by (simp add: Scan_def Open_def)
          with op s1 r1 d1 s2 r2 Inl se show ?thesis by blast
        next
          case (Inr data2)
          with op s1 r1 d1 s2 r2 assms
          have "status = SCAN_SUCCESS \<and>
              res = Some \<lparr>Banner1 = EncodeToString data, Banner2 = EncodeToString data2\<rparr> \<and>
              err = None \<and> c = Close c2"
            by (simp add: Scan_def Open_def)
          with op s1 r1 d1 s2 r2 Inr show ?thesis by blast
        qed
      qed
    qed
  qed
qed

lemma Read_consumes:
  "Read cap c = Some (r, c') \<Longrightarrow> length (reads c') < length (reads c)"
  by (auto simp: Read_def split: list.splits)

lemma readLoop_reads_le:
  "readLoop cls t len data tr c = Some (r, c') \<Longrightarrow> length (reads c') \<le> length (reads c)"
proof (induction cls t len data tr c rule: readLoop.induct)
  case (1 cls t len data tr c)
  show ?case
  proof (cases "tr < len \<and> \<not> t \<le> clock c")
    case False
    with "1.prems" show ?thesis
      by (auto simp: readLoop.simps [of cls t len data tr c] split: if_splits)
  next
    case True
    show ?thesis
    proof (cases "Read (length data - tr) c")
      case None
      with True "1.prems" show ?thesis by (simp add: readLoop.simps [of cls t len data tr c])
    next
      case (Some a)
      obtain bs err c1 where a: "a = ((bs, err), c1)" by (metis surj_pair)
      have lt: "length (reads c1) < length (reads c)"
        using Some a by (auto dest: Read_consumes)
      show ?thesis
      proof (cases err)
        case (Some e')
        with True \<open>Read (length data - tr) c = Some a\<close> a "1.prems" lt show ?thesis
          by (auto simp: readLoop.simps [of cls t len data tr c] split: if_splits)
      next
        case None
        with True \<open>Read (length data - tr) c = Some a\<close> a "1.prems"
        have "readLoop cls t len (take tr data @ bs @ drop (tr + length bs) data) (tr + length bs) c1
                = Some (r, c')"
          by (simp add: readLoop.simps [of cls t len data tr c])
        then have "length (reads c') \<le> length (reads c1)"
          using True \<open>Read (length data - tr) c = Some a\<close> a None
          by (intro "1.IH" [of a "(bs, err)" c1 bs err]) simp_all
        with lt show ?thesis by simp
      qed
    qed
  qed
qed

lemma readLoop_first_read:
  assumes "readLoop cls t len data tr c = Some (r, c')" "tr < len" "clock c < t"
  shows "length (reads c') < length (reads c)"
proof (cases "Read (length data - tr) c")
  case None
  with assms show ?thesis by (simp add: readLoop.simps [of cls t len data tr c])
next
  case (Some a)
  obtain bs err c1 where a: "a = ((bs, err), c1)" by (metis surj_pair)
  have lt: "length (reads c1) < length (reads c)"
    using Some a by (auto dest: Read_consumes)
  show ?thesis
  proof (cases err)
    case (Some e')
    with assms \<open>Read (length data - tr) c = Some a\<close> a lt show ?thesis
      by (auto simp: readLoop.simps [of cls t len data tr c] split: if_splits)
  next
    case None
    with assms \<open>Read (length data - tr) c = Some a\<close> a
    have "readLoop cls t len (take tr data @ bs @ drop (tr + length bs) data) (tr + length bs) c1
                = Some (r, c')"
      by (simp add: readLoop.simps [of cls t len data tr c])
    then have "length (reads c') \<le> length (reads c1)" by (rule readLoop_reads_le)
    with lt show ?thesis by simp
  qed
qed

section \<open>The read loop on a peer that delivers chunks\<close>

lemma readLoop_chunks:
  "in_time t len tr (clock c) dbs \<Longrightarrow> reads c = map chunk_of dbs @ rest \<Longrightarrow> length data = len \<Longrightarrow>
   readLoop cls t len data tr c =
     readLoop cls t len
       (take tr data @ concat (map snd dbs) @ drop (tr + length (concat (map snd dbs))) data)
       (tr + length (concat (map snd dbs)))
       (c\<lparr>clock := clock c + sum_list (map fst dbs), reads := rest\<rparr>)"
proof (induction dbs arbitrary: tr c data)
  case Nil
  then have "c\<lparr>clock := clock c + sum_list (map fst []), reads := rest\<rparr> = c" by simp
  then show ?case by simp
next
  case (Cons db dbs)
  let ?c = "c\<lparr>clock := clock c + fst db, reads := map chunk_of dbs @ rest\<rparr>"
  let ?d = "take tr data @ snd db @ drop (tr + length (snd db)) data"
  from Cons.prems have g: "tr < len" "\<not> t \<le> clock c" "tr + length (snd db) \<le> len"
    and nxt: "in_time t len (tr + length (snd db)) (clock ?c) dbs"
    by simp_all
  have rd: "Read (length data - tr) c = Some ((snd db, None), ?c)"
    using Cons.prems(2,3) g by (simp add: Read_def chunk_of_def chunk_def)
  have ld: "length ?d = len" using Cons.prems(3) g by simp
  have step: "readLoop cls t len data tr c = readLoop cls t len ?d (tr + length (snd db)) ?c"
    using g rd by (simp add: readLoop.simps [of cls t len data tr c])
  have ih: "readLoop cls t len ?d (tr + length (snd db)) ?c =
     readLoop cls t len
       (take (tr + length (snd db)) ?d @ concat (map snd dbs)
          @ drop (tr + length (snd db) + length (concat (map snd dbs))) ?d)
       (tr + length (snd db) + length (concat (map snd dbs)))
       (?c\<lparr>clock := clock ?c + sum_list (map fst dbs), reads := rest\<rparr>)"
    using nxt ld by (intro Cons.IH) simp_all
  have e1: "take (tr + length (snd db)) ?d = take tr data @ snd db"
    using Cons.prems(3) g by simp
  have e2: "drop (tr + length (snd db) + length (concat (map snd dbs))) ?d
      = drop (tr + length (snd db) + length (concat (map snd dbs))) data"
    using Cons.prems(3) g by (simp add: add.commute)
  have X: "take (tr + length (snd db)) ?d @ concat (map snd dbs)
          @ drop (tr + length (snd db) + length (concat (map snd dbs))) ?d
      = take tr data @ concat (map snd (db # dbs))
          @ drop (tr + length (concat (map snd (db # dbs)))) data"
    unfolding e1 e2 by (simp add: add.assoc)
  have n: "tr + length (snd db) + length (concat (map snd dbs))
      = tr + length (concat (map snd (db # dbs)))"
    by simp
  have cc: "?c\<lparr>clock := clock ?c + sum_list (map fst dbs), reads := rest\<rparr>
      = c\<lparr>clock := clock c + sum_list (map fst (db # dbs)), reads := rest\<rparr>"
    by (simp add: add.assoc)
  show ?case
    apply (rule trans [OF step])
    apply (rule trans [OF ih])
    apply (subst X)
    apply (subst n)
    apply (subst cc)
    apply (rule refl)
    done
qed

lemma in_time_short:
  "tr + length (concat (map snd dbs)) < len \<Longrightarrow> now + sum_list (map fst dbs) < t \<Longrightarrow>
   in_time t len tr now dbs"
  by (induction dbs arbitrary: tr now) (simp_all add: add.assoc)

lemma readLoop_full:
  "\<not> tr < len \<Longrightarrow> readLoop cls t len data tr c = Some (Inr data, c)"
  by (simp add: readLoop.simps [of cls t len data tr c])

lemma readLoop_eof:
  assumes "tr < len" "clock c < t" "reads c = eof_after d # rest"
  shows "readLoop cls t len data tr c =
           Some (Inr data, c\<lparr>clock := clock c + d, reads := rest\<rparr>)"
proof -
  have "Read (length data - tr) c = Some (([], Some EOF), c\<lparr>clock := clock c + d, reads := rest\<rparr>)"
    using assms(3) by (simp add: Read_def eof_after_def)
  with assms(1,2) show ?thesis
    by (simp add: readLoop.simps [of cls t len data tr c])
qed

lemma readLoop_short:
  assumes "reads c = map chunk_of dbs @ eof_after d # rest"
    and "length (concat (map snd dbs)) < len"
    and "sum_list (map fst dbs) < span"
  shows "readLoop cls (clock c + span) len (replicate len 0) 0 c =
           Some (Inr (concat (map snd dbs) @ replicate (len - length (concat (map snd dbs))) 0),
                 c\<lparr>clock := clock c + sum_list (map fst dbs) + d, reads := rest\<rparr>)"
proof -
  let ?k = "length (concat (map snd dbs))"
  let ?c = "c\<lparr>clock := clock c + sum_list (map fst dbs), reads := eof_after d # rest\<rparr>"
  let ?data = "take 0 (replicate len (0::byte)) @ concat (map snd dbs) @ drop (0 + ?k) (replicate len 0)"
  have it: "in_time (clock c + span) len 0 (clock c) dbs"
    using assms(2,3) by (intro in_time_short) simp_all
  have "readLoop cls (clock c + span) len (replicate len 0) 0 c =
          readLoop cls (clock c + span) len ?data (0 + ?k) ?c"
    using it assms(1) by (rule readLoop_chunks) simp
  also have "\<dots> = Some (Inr ?data, ?c\<lparr>clock := clock ?c + d, reads := rest\<rparr>)"
    using assms(2,3) by (intro readLoop_eof) simp_all
  finally show ?thesis by (simp add: add.assoc)
qed

section \<open>The encoding\<close>

lemma hextable_digit:
  assumes "n < 16"
  shows "hextable ! n = lower_hex_digit n"
proof -
  have "hextable = map lower_hex_digit [0..<16]"
    by (simp add: hextable_def lower_hex_digit_def upt_rec)
  then have "hextable ! n = map lower_hex_digit [0..<16] ! n" by simp
  also have "\<dots> = lower_hex_digit ([0..<16] ! n)" using assms by (intro nth_map) simp
  also have "[0..<16] ! n = n" using assms nth_upt [of 0 n 16] by simp
  finally show ?thesis .
qed

lemma high_nibble: "unat (drop_bit 4 (v::byte)) = unat v div 16"
proof -
  have "unat (drop_bit 4 v) = drop_bit 4 (unat v)" by (rule unat_drop_bit_eq)
  also have "\<dots> = unat v div 16" by (simp add: drop_bit_eq_div)
  finally show ?thesis .
qed

lemma low_nibble: "unat ((v::byte) AND 0x0F) = unat v mod 16"
proof -
  have "(0x0F::byte) = mask 4" by (simp add: mask_eq_exp_minus_1)
  then have "v AND 0x0F = take_bit 4 v" by (simp only: take_bit_eq_mask)
  then have "unat (v AND 0x0F) = unat (take_bit 4 v)" by (rule arg_cong)
  also have "\<dots> = take_bit 4 (unat v)" by (rule unsigned_take_bit_eq)
  also have "\<dots> = unat v mod 16" by (simp add: take_bit_eq_mod)
  finally show ?thesis .
qed

lemma EncodeToString_lower_hex: "EncodeToString bs = lower_hex bs"
proof -
  have "hextable ! unat (drop_bit 4 v) = lower_hex_digit (unat v div 16)" for v :: byte
  proof -
    have "unat v < 256" using unsigned_less [of v, where 'a = nat] by simp
    then have "unat v div 16 < 16" by simp
    then show ?thesis by (simp only: high_nibble hextable_digit)
  qed
  moreover have "hextable ! unat (v AND 0x0F) = lower_hex_digit (unat v mod 16)" for v :: byte
    by (simp only: low_nibble) (simp add: hextable_digit)
  ultimately show ?thesis by (simp only: EncodeToString_def lower_hex_def)
qed

section \<open>Concrete runs\<close>

lemmas run_defs = Scan_def Open_def Close_def round1_def round2_def Write_def Read_def
  readVarInt_def readVarInt_loop.simps readLoop.simps maxBytes_def b0_def Second_def
  peer_def chunk_def one_byte_def eof_after_def chunk_of_def write_ok_def default_scanner_def hung_up_def
  open_at_def read_fails_def write_fails_def peer_writing_def failed_open_def

lemma run_end_to_end:
  "Scan cls default_scanner
     (peer [one_byte (0, 5), chunk 0 [1, 2, 3, 4, 5],
            one_byte (0, 9), chunk 0 [1, 2, 3, 4, 5, 6, 7, 8, 0xAB]])
   = Some ((SCAN_SUCCESS,
            Some \<lparr>Banner1 = ''0102030405'', Banner2 = ''0102030405060708ab''\<rparr>, None),
           hung_up 0 [] [] [0x0A, 0x0A])"
  by (simp add: run_defs EncodeToString_def hextable_def word_sless_alt)

lemma run_zero_length:
  "Scan cls default_scanner (peer [one_byte (0, 0), chunk 0 [1, 2, 3]])
   = Some ((SCAN_PROTOCOL_ERROR, None, Some (errorString ''zero/negative banner length'')),
           hung_up 0 [chunk 0 [1, 2, 3]] [write_ok] [0x0A])"
  by (simp add: run_defs word_sless_alt)

lemma run_read_error:
  "readVarInt (conn_reading [\<lparr>r_elapsed = 0, r_bytes = [7], r_err = Some (OpError ''connection reset'')\<rparr>])
    = Some ((0, Some (OpError ''connection reset'')), conn_reading [])"
  by (simp add: readVarInt_def readVarInt_loop.simps Read_def conn_reading_def maxBytes_def)

lemma write1_peer:
  "Write (probe1 default_scanner) (open_conn (peer rs)) = Some (None, open_at 0 rs [write_ok] [0x0A])"
  by (simp add: run_defs)

lemma readVarInt_32801:
  "readVarInt (open_at 0 [one_byte (0, 0xA1), one_byte (0, 0x80), one_byte (0, 0x02), chunk 0 [1, 2, 3]]
                 [write_ok] [0x0A])
     = Some ((32801, None), open_at 0 [chunk 0 [1, 2, 3]] [write_ok] [0x0A])"
  by (simp add: run_defs)

lemma round1_five:
  "round1 cls default_scanner (open_conn (peer (one_byte (0, 5) # chunk 0 [1, 2, 3, 4, 5] # rs)))
     = Some (Inr [1, 2, 3, 4, 5], open_at 0 rs [write_ok] [0x0A])"
  by (simp add: run_defs word_sless_alt)

lemma write2_after:
  "Write (probe2 default_scanner) (open_at 0 rs [write_ok] [0x0A]) = Some (None, open_at 0 rs [] [0x0A, 0x0A])"
  by (simp add: run_defs)

lemma readVarInt_8:
  "readVarInt (open_at 0 [one_byte (0, 8), chunk 0 [1, 2, 3, 4, 5, 6, 7, 8]] [] [0x0A, 0x0A])
     = Some ((8, None), open_at 0 [chunk 0 [1, 2, 3, 4, 5, 6, 7, 8]] [] [0x0A, 0x0A])"
  by (simp add: run_defs)

lemma open_peer: "open_err (peer rs) = None"
  by (simp add: peer_def)

lemma run_malformed:
  "Scan transport_status default_scanner
     (peer [one_byte (0, 0x80), one_byte (0, 0x80), one_byte (0, 0x80), one_byte (0, 0x80),
            one_byte (0, 0x80), one_byte (0, 0x01)])
   = Some ((SCAN_UNKNOWN_ERROR, None, Some (errorString ''varint too long'')),
           hung_up 0 [one_byte (0, 0x01)] [write_ok] [0x0A])"
  by (simp add: run_defs transport_status_def)

section \<open>Rounds that go through\<close>

lemma readVarInt_single:
  assumes "b < 128" "reads c = one_byte (d, b) # others"
  shows "readVarInt c = Some ((ucast b, None), c\<lparr>clock := clock c + d, reads := others\<rparr>)"
proof -
  from assms(1) have m: "b AND 0x7F = b" "b AND 0x80 = 0" by (simp_all add: small_byte)
  have "readVarInt_loop 0 0 0 c =
     Some ((0 OR groups 0 (map snd [(d, b)]), None),
           c\<lparr>clock := clock c + sum_list (map fst [(d, b)]), reads := others\<rparr>)"
    using assms(2) m by (intro readVarInt_loop_run) (simp_all add: maxBytes_def)
  then show ?thesis using m by (simp add: readVarInt_def)
qed

lemma readLoop_complete:
  assumes "in_time t len 0 (clock c) dbs"
    and "reads c = map chunk_of dbs @ rest"
    and "length (concat (map snd dbs)) = len"
  shows "readLoop cls t len (replicate len 0) 0 c =
           Some (Inr (concat (map snd dbs)),
                 c\<lparr>clock := clock c + sum_list (map fst dbs), reads := rest\<rparr>)"
proof -
  let ?c = "c\<lparr>clock := clock c + sum_list (map fst dbs), reads := rest\<rparr>"
  let ?data = "take 0 (replicate len (0::byte)) @ concat (map snd dbs)
                 @ drop (0 + length (concat (map snd dbs))) (replicate len 0)"
  have "readLoop cls t len (replicate len 0) 0 c =
          readLoop cls t len ?data (0 + length (concat (map snd dbs))) ?c"
    using assms(1,2) by (rule readLoop_chunks) simp
  also have "\<dots> = Some (Inr ?data, ?c)"
    using assms(3) by (intro readLoop_full) simp
  finally show ?thesis using assms(3) by simp
qed

lemma round1_delivers:
  assumes "Write (probe1 s) c = Some (None, c1)"
    and "readVarInt c1 = Some ((len, None), c2)"
    and "1 \<le> sint len" "sint len \<le> 32800"
    and "reads c2 = map chunk_of dbs @ rest"
    and "length (concat (map snd dbs)) = nat (sint len)"
    and "in_time (clock c2 + 5 * Second) (nat (sint len)) 0 (clock c2) dbs"
  shows "round1 cls s c =
           Some (Inr (concat (map snd dbs)),
                 c2\<lparr>clock := clock c2 + sum_list (map fst dbs), reads := rest\<rparr>)"
proof -
  have g: "\<not> len <s 1" "\<not> 32800 <s len" using assms(3,4) by (simp_all add: word_sless_alt)
  have "round1 cls s c = readLoop cls (clock c2 + 5 * Second) (nat (sint len))
      (replicate (nat (sint len)) 0) 0 c2"
    using assms(1,2) g by (simp add: round1_def)
  also have "\<dots> = Some (Inr (concat (map snd dbs)),
                 c2\<lparr>clock := clock c2 + sum_list (map fst dbs), reads := rest\<rparr>)"
    using assms(7,5,6) by (rule readLoop_complete)
  finally show ?thesis .
qed

lemma round2_delivers:
  assumes "Write (probe2 s) c = Some (None, c1)"
    and "readVarInt c1 = Some ((9, None), c2)"
    and "reads c2 = map chunk_of dbs @ rest"
    and "length (concat (map snd dbs)) = 9"
    and "in_time (clock c2 + 5 * Second) 9 0 (clock c2) dbs"
  shows "round2 cls s c =
           Some (Inr (concat (map snd dbs)),
                 c2\<lparr>clock := clock c2 + sum_list (map fst dbs), reads := rest\<rparr>)"
proof -
  have "round2 cls s c = readLoop cls (clock c2 + 5 * Second) 9 (replicate 9 0) 0 c2"
    using assms(1,2) by (simp add: round2_def)
  also have "\<dots> = Some (Inr (concat (map snd dbs)),
                 c2\<lparr>clock := clock c2 + sum_list (map fst dbs), reads := rest\<rparr>)"
    using assms(5,3,4) by (rule readLoop_complete)
  finally show ?thesis .
qed

lemma end_to_end:
  assumes "length (concat (map snd dbs1)) = 5"
    and "in_time (d1 + 5 * Second) 5 0 d1 dbs1"
    and "length (concat (map snd dbs2)) = 9"
    and "in_time (d1 + sum_list (map fst dbs1) + d2 + 5 * Second) 9 0
           (d1 + sum_list (map fst dbs1) + d2) dbs2"
  shows "Scan cls default_scanner
           (peer (one_byte (d1, 0x05) # map chunk_of dbs1 @ one_byte (d2, 0x09) # map chunk_of dbs2))
         = Some ((SCAN_SUCCESS,
                  Some \<lparr>Banner1 = EncodeToString (concat (map snd dbs1)),
                        Banner2 = EncodeToString (concat (map snd dbs2))\<rparr>, None),
                 hung_up (d1 + sum_list (map fst dbs1) + d2 + sum_list (map fst dbs2)) [] []
                   [0x0A, 0x0A])"
proof -
  let ?rs2 = "one_byte (d2, 0x09) # map chunk_of dbs2"
  let ?rs = "one_byte (d1, 0x05) # map chunk_of dbs1 @ ?rs2"
  let ?t1 = "d1 + sum_list (map fst dbs1)"
  have v1: "readVarInt (open_at 0 ?rs [write_ok] [0x0A])
      = Some ((5, None), open_at d1 (map chunk_of dbs1 @ ?rs2) [write_ok] [0x0A])"
    using readVarInt_single [of 5 "open_at 0 ?rs [write_ok] [0x0A]" d1 "map chunk_of dbs1 @ ?rs2"]
    by (simp add: open_at_def)
  have r1: "round1 cls default_scanner (open_conn (peer ?rs))
      = Some (Inr (concat (map snd dbs1)), open_at ?t1 ?rs2 [write_ok] [0x0A])"
    using round1_delivers [OF write1_peer v1, of dbs1 ?rs2 cls] assms(1,2)
    by (simp add: open_at_def)
  have w2: "Write (probe2 default_scanner) (open_at ?t1 ?rs2 [write_ok] [0x0A])
      = Some (None, open_at ?t1 ?rs2 [] [0x0A, 0x0A])"
    by (simp add: run_defs)
  have v2: "readVarInt (open_at ?t1 ?rs2 [] [0x0A, 0x0A])
      = Some ((9, None), open_at (?t1 + d2) (map chunk_of dbs2) [] [0x0A, 0x0A])"
    using readVarInt_single [of 9 "open_at ?t1 ?rs2 [] [0x0A, 0x0A]" d2 "map chunk_of dbs2"]
    by (simp add: open_at_def)
  have r2: "round2 cls default_scanner (open_at ?t1 ?rs2 [write_ok] [0x0A])
      = Some (Inr (concat (map snd dbs2)),
              open_at (?t1 + d2 + sum_list (map fst dbs2)) [] [] [0x0A, 0x0A])"
    using round2_delivers [OF w2 v2, of dbs2 "[]" cls] assms(3,4)
    by (simp add: open_at_def)
  show ?thesis
    using r1 r2 by (simp add: Scan_def Open_def open_peer Close_def open_at_def hung_up_def)
qed

lemma replicate_5: "replicate 5 (0::byte) = [0, 0, 0, 0, 0]"
  by (simp add: numeral_eq_Suc)

lemma round1_short_run:
  "round1 cls default_scanner
     (open_conn (peer [one_byte (0, 10), chunk 0 [1, 2, 3, 4, 5], eof_after 0]))
     = Some (Inr [1, 2, 3, 4, 5, 0, 0, 0, 0, 0], open_at 0 [] [write_ok] [0x0A])"
  by (simp add: run_defs word_sless_alt replicate_5)


lemma run_timeout_between_reads:
  "Scan cls default_scanner
     (peer [one_byte (0, 10), chunk (6 * Second) [1, 2, 3, 4, 5], chunk 0 [6, 7, 8, 9, 10]])
   = Some ((SCAN_PROTOCOL_ERROR, None, Some (errorString ''read timeout'')),
           hung_up (6 * Second) [chunk 0 [6, 7, 8, 9, 10]] [write_ok] [0x0A])"
  by (simp add: run_defs word_sless_alt)

lemma run_late_delivery:
  "Scan cls default_scanner
     (peer [one_byte (0, 10), chunk 0 [1, 2, 3, 4, 5], chunk (6 * Second) [6, 7, 8, 9, 10],
            one_byte (0, 9), chunk 0 [1, 2, 3, 4, 5, 6, 7, 8, 9]])
   = Some ((SCAN_SUCCESS,
            Some \<lparr>Banner1 = ''0102030405060708090a'', Banner2 = ''010203040506070809''\<rparr>, None),
           hung_up (6 * Second) [] [] [0x0A, 0x0A])"
  by (simp add: run_defs word_sless_alt EncodeToString_def hextable_def)

lemma run_stalled_forever:
  "Scan cls default_scanner (peer [one_byte (0, 10), chunk 0 [1, 2, 3, 4, 5]]) = None"
  by (simp add: run_defs word_sless_alt)

section \<open>Steps that fail\<close>











section \<open>Claims about readVarInt\<close>

text \<open>
  C9. Every value that \<^verbatim>\<open>readVarInt\<close> returns without an error lies in \<open>[0, 2^35)\<close>: it is
  never negative. So the guard of the "zero/negative banner length" return of round 1,
  \<^verbatim>\<open>length < 1\<close> after \<^verbatim>\<open>length > 32800\<close> failed, holds only for the length 0.
\<close>

theorem readVarInt_value_range:
  assumes "readVarInt conn = Some ((v, None), conn')"
  shows "0 \<le> sint v \<and> sint v < 2 ^ 35 \<and> ((\<not> 32800 <s v \<and> v <s 1) = (v = 0))"
proof -
  have "take_bit 35 v = v"
    using assms unfolding readVarInt_def by (rule readVarInt_loop_fits) simp_all
  then have u: "uint v < 2 ^ 35" by (rule small_uint) simp
  then have s: "sint v = uint v" by (rule sint_small)
  have nonneg: "0 \<le> sint v" using s by simp
  have "(v <s 1) = (v = 0)" using nonneg by (rule sless1)
  moreover have "v = 0 \<Longrightarrow> \<not> 32800 <s v" by (simp add: word_sless_alt)
  ultimately show ?thesis using u s nonneg by auto
qed

theorem readVarInt_value_range_witness:
  "readVarInt (conn_reading [one_byte (0, 0xAC), one_byte (0, 0x02)])
     = Some ((300, None), conn_reading []) \<and>
   0 \<le> sint (300 :: goint) \<and> sint (300 :: goint) < 2 ^ 35 \<and>
   ((\<not> 32800 <s (300 :: goint) \<and> (300 :: goint) <s 1) = ((300 :: goint) = 0))"
proof -
  have r: "readVarInt (conn_reading [one_byte (0, 0xAC), one_byte (0, 0x02)])
     = Some ((300, None), conn_reading [])"
    by (simp add: readVarInt_def readVarInt_loop.simps Read_def conn_reading_def one_byte_def
        maxBytes_def b0_def)
  show ?thesis using r readVarInt_value_range [OF r] by simp
qed

text \<open>
  C6. When the calls of \<^verbatim>\<open>Read\<close> deliver the bytes \<open>b0 .. bn\<close> (\<open>n \<le> 4\<close>), of which the last
  and only the last has the continuation bit clear, \<^verbatim>\<open>readVarInt\<close> returns the sum of the
  \<open>(bi AND 0x7F) << (7 * i)\<close>, as a word and as a number, and has made \<open>n + 1\<close> calls: the
  calls that remain are those after the bytes. A single byte below 128 is returned as it
  is, after one call.
\<close>

theorem readVarInt_decodes:
  "(tbs \<noteq> [] \<and> length tbs \<le> 5 \<and> reads conn = map one_byte tbs @ rest \<and>
    (\<forall>b \<in> set (butlast (map snd tbs)). b AND 0x80 \<noteq> 0) \<and> last (map snd tbs) AND 0x80 = 0
    \<longrightarrow> (\<exists>v. readVarInt conn =
              Some ((v, None),
                    conn\<lparr>clock := clock conn + sum_list (map fst tbs), reads := rest\<rparr>) \<and>
             v = (\<Sum>k<length tbs. push_bit (7 * k) (ucast (snd (tbs ! k) AND 0x7F))) \<and>
             sint v = (\<Sum>k<length tbs. uint (snd (tbs ! k) AND 0x7F) * 2 ^ (7 * k)))) \<and>
   (b < 128 \<and> reads c = one_byte (d, b) # others
    \<longrightarrow> readVarInt c = Some ((ucast b, None), c\<lparr>clock := clock c + d, reads := others\<rparr>))"
proof (intro conjI impI)
  assume a: "tbs \<noteq> [] \<and> length tbs \<le> 5 \<and> reads conn = map one_byte tbs @ rest \<and>
    (\<forall>b \<in> set (butlast (map snd tbs)). b AND 0x80 \<noteq> 0) \<and> last (map snd tbs) AND 0x80 = 0"
  let ?v = "groups 0 (map snd tbs)"
  let ?c = "conn\<lparr>clock := clock conn + sum_list (map fst tbs), reads := rest\<rparr>"
  have run: "readVarInt_loop 0 0 0 conn = Some ((0 OR ?v, None), ?c)"
    using a by (intro readVarInt_loop_run) (simp_all add: maxBytes_def)
  then have r: "readVarInt conn = Some ((?v, None), ?c)" by (simp add: readVarInt_def)
  have w: "?v = (\<Sum>k<length tbs. push_bit (7 * k) (ucast (snd (tbs ! k) AND 0x7F)))"
    by (simp add: groups_sum)
  have "0 + 7 * length (map snd tbs) \<le> 64" using a by simp
  then have "uint ?v = (\<Sum>k<length (map snd tbs). uint (map snd tbs ! k AND 0x7F) * 2 ^ (0 + 7 * k))"
    by (rule groups_uint)
  then have u: "uint ?v = (\<Sum>k<length tbs. uint (snd (tbs ! k) AND 0x7F) * 2 ^ (7 * k))"
    by simp
  have "take_bit 35 ?v = ?v"
    using r unfolding readVarInt_def by (rule readVarInt_loop_fits) simp_all
  then have "uint ?v < 2 ^ 35" by (rule small_uint) simp
  then have "sint ?v = uint ?v" by (rule sint_small)
  with u have "sint ?v = (\<Sum>k<length tbs. uint (snd (tbs ! k) AND 0x7F) * 2 ^ (7 * k))" by simp
  with r w show "\<exists>v. readVarInt conn = Some ((v, None), ?c) \<and>
             v = (\<Sum>k<length tbs. push_bit (7 * k) (ucast (snd (tbs ! k) AND 0x7F))) \<and>
             sint v = (\<Sum>k<length tbs. uint (snd (tbs ! k) AND 0x7F) * 2 ^ (7 * k))"
    by blast
next
  assume a: "b < 128 \<and> reads c = one_byte (d, b) # others"
  then have m: "b AND 0x7F = b" "b AND 0x80 = 0" by (simp_all add: small_byte)
  have "readVarInt_loop 0 0 0 c =
     Some ((0 OR groups 0 (map snd [(d, b)]), None),
           c\<lparr>clock := clock c + sum_list (map fst [(d, b)]), reads := others\<rparr>)"
    using a m by (intro readVarInt_loop_run) (simp_all add: maxBytes_def)
  then show "readVarInt c = Some ((ucast b, None), c\<lparr>clock := clock c + d, reads := others\<rparr>)"
    using m by (simp add: readVarInt_def)
qed


theorem readVarInt_decodes_witness:
  "readVarInt (conn_reading [one_byte (3, 0xAC), one_byte (4, 0x02)])
     = Some ((300, None), (conn_reading [])\<lparr>clock := 7\<rparr>) \<and>
   sint (300 :: goint) = uint (0xAC AND 0x7F :: byte) * 2 ^ 0 + uint (0x02 AND 0x7F :: byte) * 2 ^ 7 \<and>
   readVarInt (conn_reading [one_byte (2, 0x05)])
     = Some ((5, None), (conn_reading [])\<lparr>clock := 2\<rparr>)"
  using readVarInt_decodes [of "[(3, 0xAC), (4, 0x02)]"
      "conn_reading [one_byte (3, 0xAC), one_byte (4, 0x02)]" "[]"
      "0x05" "conn_reading [one_byte (2, 0x05)]" 2 "[]"]
  by (simp add: conn_reading_def)

section \<open>Claims about Scan\<close>




text \<open>
  C10. Whenever \<^verbatim>\<open>Scan\<close> returns, its result is not \<^verbatim>\<open>nil\<close> exactly when its error is
  \<^verbatim>\<open>nil\<close>; and \<^verbatim>\<open>readVarInt\<close> returns the value 0 with every error it returns.
\<close>

theorem Scan_result_iff_no_error:
  "(Scan cls s target = Some ((status, res, err), c) \<longrightarrow> (res \<noteq> None) = (err = None)) \<and>
   (readVarInt conn = Some ((v, Some e), conn') \<longrightarrow> v = 0)"
proof (intro conjI impI)
  assume "Scan cls s target = Some ((status, res, err), c)"
  from Scan_cases [OF this] show "(res \<noteq> None) = (err = None)" by auto
next
  assume "readVarInt conn = Some ((v, Some e), conn')"
  then show "v = 0" unfolding readVarInt_def by (rule readVarInt_loop_error_zero)
qed

theorem Scan_result_iff_no_error_witness:
  "Scan transport_status default_scanner
     (peer [one_byte (0, 5), chunk 0 [1, 2, 3, 4, 5],
            one_byte (0, 9), chunk 0 [1, 2, 3, 4, 5, 6, 7, 8, 0xAB]])
   = Some ((SCAN_SUCCESS,
            Some \<lparr>Banner1 = ''0102030405'', Banner2 = ''0102030405060708ab''\<rparr>, None),
           hung_up 0 [] [] [0x0A, 0x0A]) \<and>
   (Some \<lparr>Banner1 = ''0102030405'', Banner2 = ''0102030405060708ab''\<rparr> \<noteq> None)
     = ((None :: error option) = None) \<and>
   readVarInt (conn_reading [\<lparr>r_elapsed = 0, r_bytes = [7], r_err = Some (OpError ''connection reset'')\<rparr>])
    = Some ((0, Some (OpError ''connection reset'')), conn_reading [])"
  using Scan_result_iff_no_error [of transport_status default_scanner
      "peer [one_byte (0, 5), chunk 0 [1, 2, 3, 4, 5],
            one_byte (0, 9), chunk 0 [1, 2, 3, 4, 5, 6, 7, 8, 0xAB]]"
      SCAN_SUCCESS "Some \<lparr>Banner1 = ''0102030405'', Banner2 = ''0102030405060708ab''\<rparr>" None
      "hung_up 0 [] [] [0x0A, 0x0A]"
      "conn_reading [\<lparr>r_elapsed = 0, r_bytes = [7], r_err = Some (OpError ''connection reset'')\<rparr>]"
      0 "OpError ''connection reset''" "conn_reading []"]
    run_end_to_end [of transport_status] run_read_error
  by simp

text \<open>
  C3. Round 1, once \<^verbatim>\<open>probe1\<close> is written and \<^verbatim>\<open>readVarInt\<close> has returned the length \<open>len\<close>.
  For \<open>len > 32800\<close> \<^verbatim>\<open>Scan\<close> returns the protocol-error status with "banner too long", for
  \<open>len < 1\<close> with "zero/negative banner length"; in both cases the connection is closed as
  \<^verbatim>\<open>readVarInt\<close> left it: no call of \<^verbatim>\<open>Read\<close> was made for the payload. For
  \<open>1 \<le> len \<le> 32800\<close> neither return is taken: round 1 is the read loop on a buffer of
  \<open>len\<close> bytes, and whatever it returns, it returns after at least one call of \<^verbatim>\<open>Read\<close>.
\<close>

theorem round1_length_check:
  assumes "open_err target = None"
    and "Write (probe1 s) (open_conn target) = Some (None, c1)"
    and "readVarInt c1 = Some ((len, None), c2)"
  shows "(32800 < sint len \<longrightarrow>
            Scan cls s target =
              Some ((SCAN_PROTOCOL_ERROR, None, Some (errorString ''banner too long'')), Close c2)) \<and>
         (sint len < 1 \<longrightarrow>
            Scan cls s target =
              Some ((SCAN_PROTOCOL_ERROR, None, Some (errorString ''zero/negative banner length'')),
                    Close c2)) \<and>
         (1 \<le> sint len \<and> sint len \<le> 32800 \<longrightarrow>
            round1 cls s (open_conn target) =
              readLoop cls (clock c2 + 5 * Second) (nat (sint len))
                (replicate (nat (sint len)) 0) 0 c2 \<and>
            (\<forall>r c'. round1 cls s (open_conn target) = Some (r, c') \<longrightarrow>
                length (reads c') < length (reads c2)))"
proof (intro conjI impI)
  assume "32800 < sint len"
  then have "32800 <s len" by (simp add: word_sless_alt)
  with assms show "Scan cls s target =
      Some ((SCAN_PROTOCOL_ERROR, None, Some (errorString ''banner too long'')), Close c2)"
    by (simp add: Scan_def Open_def round1_def)
next
  assume a: "sint len < 1"
  then have "len <s 1" "\<not> 32800 <s len" by (simp_all add: word_sless_alt)
  with assms show "Scan cls s target =
      Some ((SCAN_PROTOCOL_ERROR, None, Some (errorString ''zero/negative banner length'')), Close c2)"
    by (simp add: Scan_def Open_def round1_def)
next
  assume a: "1 \<le> sint len \<and> sint len \<le> 32800"
  then have g: "\<not> len <s 1" "\<not> 32800 <s len" by (simp_all add: word_sless_alt)
  with assms show eq: "round1 cls s (open_conn target) =
      readLoop cls (clock c2 + 5 * Second) (nat (sint len)) (replicate (nat (sint len)) 0) 0 c2"
    by (simp add: round1_def)
  show "\<forall>r c'. round1 cls s (open_conn target) = Some (r, c') \<longrightarrow>
                length (reads c') < length (reads c2)"
  proof (intro allI impI)
    fix r c'
    assume "round1 cls s (open_conn target) = Some (r, c')"
    with eq have "readLoop cls (clock c2 + 5 * Second) (nat (sint len))
        (replicate (nat (sint len)) 0) 0 c2 = Some (r, c')" by simp
    moreover have "0 < nat (sint len)" using a by simp
    moreover have "clock c2 < clock c2 + 5 * Second" by (simp add: Second_def)
    ultimately show "length (reads c') < length (reads c2)"
      by (rule readLoop_first_read)
  qed
qed

theorem round1_length_check_witness:
  "open_err (peer [one_byte (0, 0xA1), one_byte (0, 0x80), one_byte (0, 0x02), chunk 0 [1, 2, 3]])
     = None \<and>
   Write (probe1 default_scanner)
     (open_conn (peer [one_byte (0, 0xA1), one_byte (0, 0x80), one_byte (0, 0x02),
                       chunk 0 [1, 2, 3]]))
     = Some (None, open_at 0 [one_byte (0, 0xA1), one_byte (0, 0x80), one_byte (0, 0x02),
                              chunk 0 [1, 2, 3]] [write_ok] [0x0A]) \<and>
   readVarInt (open_at 0 [one_byte (0, 0xA1), one_byte (0, 0x80), one_byte (0, 0x02),
                          chunk 0 [1, 2, 3]] [write_ok] [0x0A])
     = Some ((32801, None), open_at 0 [chunk 0 [1, 2, 3]] [write_ok] [0x0A]) \<and>
   32800 < sint (32801 :: goint) \<and>
   Scan transport_status default_scanner
      (peer [one_byte (0, 0xA1), one_byte (0, 0x80), one_byte (0, 0x02), chunk 0 [1, 2, 3]])
     = Some ((SCAN_PROTOCOL_ERROR, None, Some (errorString ''banner too long'')),
             Close (open_at 0 [chunk 0 [1, 2, 3]] [write_ok] [0x0A]))"
  using round1_length_check [OF open_peer write1_peer readVarInt_32801, of transport_status]
    open_peer write1_peer readVarInt_32801
  by simp

text \<open>
  C4. Round 2, once round 1 went through, \<^verbatim>\<open>probe2\<close> is written and \<^verbatim>\<open>readVarInt\<close> has
  returned the length \<open>len\<close>. For \<open>len \<noteq> 9\<close> \<^verbatim>\<open>Scan\<close> returns the protocol-error status with
  "banner length mismatch" and closes the connection as \<^verbatim>\<open>readVarInt\<close> left it, whatever
  the calls of \<^verbatim>\<open>Read\<close> still to come would deliver. For \<open>len = 9\<close> round 2 is the read loop
  on a buffer of 9 bytes, and it returns after at least one call of \<^verbatim>\<open>Read\<close>.
\<close>

theorem round2_length_check:
  assumes "open_err target = None"
    and "round1 cls s (open_conn target) = Some (Inr data, c0)"
    and "Write (probe2 s) c0 = Some (None, c1)"
    and "readVarInt c1 = Some ((len, None), c2)"
  shows "(len \<noteq> 9 \<longrightarrow>
            Scan cls s target =
              Some ((SCAN_PROTOCOL_ERROR, None, Some (errorString ''banner length mismatch'')),
                    Close c2)) \<and>
         (len = 9 \<longrightarrow>
            round2 cls s c0 = readLoop cls (clock c2 + 5 * Second) 9 (replicate 9 0) 0 c2 \<and>
            (\<forall>r c'. round2 cls s c0 = Some (r, c') \<longrightarrow> length (reads c') < length (reads c2)))"
proof (intro conjI impI)
  assume "len \<noteq> 9"
  with assms show "Scan cls s target =
      Some ((SCAN_PROTOCOL_ERROR, None, Some (errorString ''banner length mismatch'')), Close c2)"
    by (simp add: Scan_def Open_def round2_def)
next
  assume "len = 9"
  with assms show eq: "round2 cls s c0 = readLoop cls (clock c2 + 5 * Second) 9 (replicate 9 0) 0 c2"
    by (simp add: round2_def)
  show "\<forall>r c'. round2 cls s c0 = Some (r, c') \<longrightarrow> length (reads c') < length (reads c2)"
  proof (intro allI impI)
    fix r c'
    assume "round2 cls s c0 = Some (r, c')"
    with eq have "readLoop cls (clock c2 + 5 * Second) 9 (replicate 9 0) 0 c2 = Some (r, c')"
      by simp
    then show "length (reads c') < length (reads c2)"
      by (rule readLoop_first_read) (simp_all add: Second_def)
  qed
qed

theorem round2_length_check_witness:
  "open_err (peer [one_byte (0, 5), chunk 0 [1, 2, 3, 4, 5],
                   one_byte (0, 8), chunk 0 [1, 2, 3, 4, 5, 6, 7, 8]]) = None \<and>
   round1 transport_status default_scanner
     (open_conn (peer [one_byte (0, 5), chunk 0 [1, 2, 3, 4, 5],
                       one_byte (0, 8), chunk 0 [1, 2, 3, 4, 5, 6, 7, 8]]))
     = Some (Inr [1, 2, 3, 4, 5],
             open_at 0 [one_byte (0, 8), chunk 0 [1, 2, 3, 4, 5, 6, 7, 8]] [write_ok] [0x0A]) \<and>
   Write (probe2 default_scanner)
     (open_at 0 [one_byte (0, 8), chunk 0 [1, 2, 3, 4, 5, 6, 7, 8]] [write_ok] [0x0A])
     = Some (None, open_at 0 [one_byte (0, 8), chunk 0 [1, 2, 3, 4, 5, 6, 7, 8]] [] [0x0A, 0x0A]) \<and>
   readVarInt (open_at 0 [one_byte (0, 8), chunk 0 [1, 2, 3, 4, 5, 6, 7, 8]] [] [0x0A, 0x0A])
     = Some ((8, None), open_at 0 [chunk 0 [1, 2, 3, 4, 5, 6, 7, 8]] [] [0x0A, 0x0A]) \<and>
   (8 :: goint) \<noteq> 9 \<and>
   Scan transport_status default_scanner
      (peer [one_byte (0, 5), chunk 0 [1, 2, 3, 4, 5],
             one_byte (0, 8), chunk 0 [1, 2, 3, 4, 5, 6, 7, 8]])
     = Some ((SCAN_PROTOCOL_ERROR, None, Some (errorString ''banner length mismatch'')),
             Close (open_at 0 [chunk 0 [1, 2, 3, 4, 5, 6, 7, 8]] [] [0x0A, 0x0A]))"
  using round2_length_check [OF open_peer round1_five write2_after readVarInt_8, of transport_status]
    open_peer round1_five [of transport_status] write2_after readVarInt_8
  by simp

text \<open>
  C2, as claimed: when the first five bytes all have the continuation bit set, \<^verbatim>\<open>Scan\<close>
  reports the failure of \<^verbatim>\<open>readVarInt\<close> with the protocol-error status. It does not: the
  status is the one the classification helper gives to the error, and a helper that knows
  the transport's errors answers "unknown" here.
\<close>

theorem malformed_varint_status_counterexample:
  "Scan transport_status default_scanner
     (peer [one_byte (0, 0x80), one_byte (0, 0x80), one_byte (0, 0x80), one_byte (0, 0x80),
            one_byte (0, 0x80), one_byte (0, 0x01)])
   = Some ((SCAN_UNKNOWN_ERROR, None, Some (errorString ''varint too long'')),
           hung_up 0 [one_byte (0, 0x01)] [write_ok] [0x0A]) \<and>
   SCAN_UNKNOWN_ERROR \<noteq> SCAN_PROTOCOL_ERROR"
  using run_malformed by simp

text \<open>
  C2, amended: when the first five calls of \<^verbatim>\<open>Read\<close> deliver bytes that all have the
  continuation bit set, \<^verbatim>\<open>readVarInt\<close> makes exactly these five calls and fails with
  "varint too long"; \<^verbatim>\<open>Scan\<close>, in round 1 and in round 2, returns this error with a
  \<^verbatim>\<open>nil\<close> result and the status that \<^verbatim>\<open>TryGetScanStatus\<close> gives to it, as it does for the
  errors of the transport.
\<close>

theorem malformed_varint_status:
  assumes "reads conn = map one_byte tbs @ rest"
    and "length tbs = 5"
    and "\<forall>b \<in> set (map snd tbs). b AND 0x80 \<noteq> 0"
  shows "readVarInt conn =
           Some ((0, Some (errorString ''varint too long'')),
                 conn\<lparr>clock := clock conn + sum_list (map fst tbs), reads := rest\<rparr>) \<and>
         (open_err target = None \<and> Write (probe1 s) (open_conn target) = Some (None, conn) \<longrightarrow>
            Scan cls s target =
              Some ((cls (errorString ''varint too long''), None,
                     Some (errorString ''varint too long'')),
                    Close (conn\<lparr>clock := clock conn + sum_list (map fst tbs), reads := rest\<rparr>))) \<and>
         (open_err target = None \<and> round1 cls s (open_conn target) = Some (Inr data, c0) \<and>
          Write (probe2 s) c0 = Some (None, conn) \<longrightarrow>
            Scan cls s target =
              Some ((cls (errorString ''varint too long''), None,
                     Some (errorString ''varint too long'')),
                    Close (conn\<lparr>clock := clock conn + sum_list (map fst tbs), reads := rest\<rparr>)))"
proof -
  have "readVarInt_loop 0 0 0 conn =
           Some ((0, Some (errorString ''varint too long'')),
                 conn\<lparr>clock := clock conn + sum_list (map fst tbs), reads := rest\<rparr>)"
    using assms by (intro readVarInt_loop_malformed) (simp_all add: maxBytes_def)
  then have r: "readVarInt conn =
           Some ((0, Some (errorString ''varint too long'')),
                 conn\<lparr>clock := clock conn + sum_list (map fst tbs), reads := rest\<rparr>)"
    by (simp add: readVarInt_def)
  show ?thesis
  proof (intro conjI impI)
    show "readVarInt conn =
           Some ((0, Some (errorString ''varint too long'')),
                 conn\<lparr>clock := clock conn + sum_list (map fst tbs), reads := rest\<rparr>)"
      by (rule r)
  next
    assume "open_err target = None \<and> Write (probe1 s) (open_conn target) = Some (None, conn)"
    with r show "Scan cls s target =
              Some ((cls (errorString ''varint too long''), None,
                     Some (errorString ''varint too long'')),
                    Close (conn\<lparr>clock := clock conn + sum_list (map fst tbs), reads := rest\<rparr>))"
      by (simp add: Scan_def Open_def round1_def)
  next
    assume "open_err target = None \<and> round1 cls s (open_conn target) = Some (Inr data, c0) \<and>
          Write (probe2 s) c0 = Some (None, conn)"
    with r show "Scan cls s target =
              Some ((cls (errorString ''varint too long''), None,
                     Some (errorString ''varint too long'')),
                    Close (conn\<lparr>clock := clock conn + sum_list (map fst tbs), reads := rest\<rparr>))"
      by (simp add: Scan_def Open_def round2_def)
  qed
qed

theorem malformed_varint_status_witness:
  "readVarInt (open_at 0 (map one_byte [(0, 0x80), (0, 0xFF), (0, 0x80), (0, 0x80), (0, 0x80)]
                          @ [one_byte (0, 0x01)]) [write_ok] [0x0A])
     = Some ((0, Some (errorString ''varint too long'')),
             open_at 0 [one_byte (0, 0x01)] [write_ok] [0x0A]) \<and>
   Scan transport_status default_scanner
     (peer (map one_byte [(0, 0x80), (0, 0xFF), (0, 0x80), (0, 0x80), (0, 0x80)]
              @ [one_byte (0, 0x01)]))
     = Some ((transport_status (errorString ''varint too long''), None,
              Some (errorString ''varint too long'')),
             Close (open_at 0 [one_byte (0, 0x01)] [write_ok] [0x0A]))"
  using malformed_varint_status [of
      "open_at 0 (map one_byte [(0, 0x80), (0, 0xFF), (0, 0x80), (0, 0x80), (0, 0x80)]
                          @ [one_byte (0, 0x01)]) [write_ok] [0x0A]"
      "[(0, 0x80), (0, 0xFF), (0, 0x80), (0, 0x80), (0, 0x80)]" "[one_byte (0, 0x01)]"
      "peer (map one_byte [(0, 0x80), (0, 0xFF), (0, 0x80), (0, 0x80), (0, 0x80)]
              @ [one_byte (0, 0x01)])" default_scanner transport_status]
    write1_peer [of "map one_byte [(0, 0x80), (0, 0xFF), (0, 0x80), (0, 0x80), (0, 0x80)]
              @ [one_byte (0, 0x01)]"]
  by (simp add: open_peer open_at_def)

section \<open>Claims about the read phases and the result\<close>

text \<open>
  C1, as claimed: after a short read in round 1 the buffer holds exactly the \<open>k\<close> bytes
  read. It does not: with the length 10 and 5 bytes before the end of the stream, the
  buffer that round 1 hands on has 10 bytes, and its encoding has 20 digits where that of
  the 5 bytes has 10.
\<close>

theorem short_read_buffer_counterexample:
  "round1 transport_status default_scanner
     (open_conn (peer [one_byte (0, 10), chunk 0 [1, 2, 3, 4, 5], eof_after 0]))
     = Some (Inr [1, 2, 3, 4, 5, 0, 0, 0, 0, 0], open_at 0 [] [write_ok] [0x0A]) \<and>
   length [1, 2, 3, 4, 5, 0, 0, 0, 0, 0 :: byte] \<noteq> 5 \<and>
   EncodeToString [1, 2, 3, 4, 5, 0, 0, 0, 0, 0] = ''01020304050000000000'' \<and>
   EncodeToString [1, 2, 3, 4, 5] = ''0102030405''"
  using round1_short_run [of transport_status]
  by (simp add: EncodeToString_def hextable_def)

text \<open>
  C1, amended: in round 1 with a length \<open>L\<close> between 1 and 32800, when the peer delivers
  \<open>k < L\<close> bytes, in any number of calls of \<^verbatim>\<open>Read\<close> that take less than 5 seconds together,
  and then signals the end of the stream, round 1 returns no error and \<^verbatim>\<open>Scan\<close> goes on
  with round 2. The buffer keeps the \<open>L\<close> bytes it was made with: the \<open>k\<close> bytes read, then
  \<open>L - k\<close> zero bytes; \<^verbatim>\<open>Banner1\<close>, when round 2 goes through, is the encoding of all of
  them.
\<close>

theorem short_read_keeps_buffer:
  assumes "open_err target = None"
    and "Write (probe1 s) (open_conn target) = Some (None, c1)"
    and "readVarInt c1 = Some ((len, None), c2)"
    and "1 \<le> sint len" and "sint len \<le> 32800"
    and "reads c2 = map chunk_of dbs @ eof_after d # rest"
    and "length (concat (map snd dbs)) < nat (sint len)"
    and "sum_list (map fst dbs) < 5 * Second"
  shows "round1 cls s (open_conn target) =
           Some (Inr (concat (map snd dbs)
                        @ replicate (nat (sint len) - length (concat (map snd dbs))) 0),
                 c2\<lparr>clock := clock c2 + sum_list (map fst dbs) + d, reads := rest\<rparr>) \<and>
         Scan cls s target =
           (case round2 cls s (c2\<lparr>clock := clock c2 + sum_list (map fst dbs) + d, reads := rest\<rparr>) of
              None \<Rightarrow> None
            | Some (Inl (status, err), c4) \<Rightarrow> Some ((status, None, Some err), Close c4)
            | Some (Inr data2, c4) \<Rightarrow>
                Some ((SCAN_SUCCESS,
                       Some \<lparr>Banner1 = EncodeToString
                                (concat (map snd dbs)
                                   @ replicate (nat (sint len) - length (concat (map snd dbs))) 0),
                             Banner2 = EncodeToString data2\<rparr>,
                       None),
                      Close c4))"
proof -
  have g: "\<not> len <s 1" "\<not> 32800 <s len" using assms(4,5) by (simp_all add: word_sless_alt)
  have "round1 cls s (open_conn target) =
      readLoop cls (clock c2 + 5 * Second) (nat (sint len)) (replicate (nat (sint len)) 0) 0 c2"
    using assms(2,3) g by (simp add: round1_def)
  also have "\<dots> = Some (Inr (concat (map snd dbs)
                        @ replicate (nat (sint len) - length (concat (map snd dbs))) 0),
                 c2\<lparr>clock := clock c2 + sum_list (map fst dbs) + d, reads := rest\<rparr>)"
    using assms(6,7,8) by (rule readLoop_short)
  finally have r1: "round1 cls s (open_conn target) =
           Some (Inr (concat (map snd dbs)
                        @ replicate (nat (sint len) - length (concat (map snd dbs))) 0),
                 c2\<lparr>clock := clock c2 + sum_list (map fst dbs) + d, reads := rest\<rparr>)" .
  show ?thesis
    using r1 assms(1) by (simp add: Scan_def Open_def)
qed

theorem short_read_keeps_buffer_witness:
  "Write (probe1 default_scanner)
     (open_conn (peer [one_byte (0, 10), chunk 1000 [1, 2, 3], chunk 2000 [4, 5], eof_after 3000]))
     = Some (None, open_at 0 [one_byte (0, 10), chunk 1000 [1, 2, 3], chunk 2000 [4, 5],
                              eof_after 3000] [write_ok] [0x0A]) \<and>
   readVarInt (open_at 0 [one_byte (0, 10), chunk 1000 [1, 2, 3], chunk 2000 [4, 5],
                          eof_after 3000] [write_ok] [0x0A])
     = Some ((10, None), open_at 0 [chunk 1000 [1, 2, 3], chunk 2000 [4, 5], eof_after 3000]
                           [write_ok] [0x0A]) \<and>
   round1 transport_status default_scanner
     (open_conn (peer [one_byte (0, 10), chunk 1000 [1, 2, 3], chunk 2000 [4, 5], eof_after 3000]))
     = Some (Inr [1, 2, 3, 4, 5, 0, 0, 0, 0, 0], open_at 6000 [] [write_ok] [0x0A])"
proof -
  let ?rs = "[one_byte (0, 10), chunk 1000 [1, 2, 3], chunk 2000 [4, 5], eof_after 3000]"
  have w: "Write (probe1 default_scanner) (open_conn (peer ?rs))
     = Some (None, open_at 0 ?rs [write_ok] [0x0A])"
    by (rule write1_peer)
  have v: "readVarInt (open_at 0 ?rs [write_ok] [0x0A])
     = Some ((10, None), open_at 0 [chunk 1000 [1, 2, 3], chunk 2000 [4, 5], eof_after 3000]
                           [write_ok] [0x0A])"
    by (simp add: run_defs)
  have rd: "reads (open_at 0 [chunk 1000 [1, 2, 3], chunk 2000 [4, 5], eof_after 3000]
                           [write_ok] [0x0A])
      = map chunk_of [(1000, [1, 2, 3]), (2000, [4, 5])] @ eof_after 3000 # []"
    by (simp add: open_at_def chunk_of_def)
  have "round1 transport_status default_scanner (open_conn (peer ?rs))
     = Some (Inr [1, 2, 3, 4, 5, 0, 0, 0, 0, 0], open_at 6000 [] [write_ok] [0x0A])"
    using short_read_keeps_buffer [OF open_peer w v _ _ rd, of transport_status]
    by (simp add: Second_def open_at_def replicate_5)
  with w v show ?thesis by simp
qed

text \<open>
  C5, at two failing inputs. The claim: a read phase whose 5 seconds pass before the
  declared length is read ends in the read-timeout error, whatever the peer does. With the
  length 10, the peer sends 5 bytes and stalls. In the first run it sends the other 5
  bytes after 6 seconds: the call of \<^verbatim>\<open>Read\<close> that was waiting returns them, the loop ends
  with the buffer full, and \<^verbatim>\<open>Scan\<close> reports success. In the second run it sends nothing
  more: the call of \<^verbatim>\<open>Read\<close> never returns, the \<^verbatim>\<open>select\<close> is never reached again, and
  \<^verbatim>\<open>Scan\<close> never returns.
\<close>

theorem stalled_read_no_timeout:
  "Scan transport_status default_scanner
     (peer [one_byte (0, 10), chunk 0 [1, 2, 3, 4, 5], chunk (6 * Second) [6, 7, 8, 9, 10],
            one_byte (0, 9), chunk 0 [1, 2, 3, 4, 5, 6, 7, 8, 9]])
   = Some ((SCAN_SUCCESS,
            Some \<lparr>Banner1 = ''0102030405060708090a'', Banner2 = ''010203040506070809''\<rparr>, None),
           hung_up (6 * Second) [] [] [0x0A, 0x0A]) \<and>
   Scan transport_status default_scanner (peer [one_byte (0, 10), chunk 0 [1, 2, 3, 4, 5]]) = None"
  using run_late_delivery [of transport_status] run_stalled_forever [of transport_status]
  by simp

text \<open>
  C8. On success \<^verbatim>\<open>Banner1\<close> and \<^verbatim>\<open>Banner2\<close> are the lowercase hexadecimal encodings of
  the buffers of round 1 and round 2; \<^verbatim>\<open>hex.EncodeToString\<close> is that encoding, the empty
  buffer encodes as the empty string, and a result of empty strings has no field in the
  serialized output. When the peer answers the first probe with the byte \<open>0x05\<close> and 5
  bytes and the second with the byte \<open>0x09\<close> and 9 bytes, each payload in chunks that the
  loop comes to ask for, \<^verbatim>\<open>Scan\<close> succeeds with the encodings of the 5 and of the 9 bytes.
\<close>

theorem banners_lower_hex:
  "(Scan cls s target = Some ((status, Some res, err), c) \<longrightarrow>
      (\<exists>data c1 data2 c2.
          round1 cls s (open_conn target) = Some (Inr data, c1) \<and>
          round2 cls s c1 = Some (Inr data2, c2) \<and>
          Banner1 res = lower_hex data \<and> Banner2 res = lower_hex data2)) \<and>
   EncodeToString bs = lower_hex bs \<and>
   EncodeToString [] = '''' \<and>
   json_fields \<lparr>Banner1 = EncodeToString [], Banner2 = EncodeToString []\<rparr> = [] \<and>
   (length (concat (map snd dbs1)) = 5 \<and> in_time (d1 + 5 * Second) 5 0 d1 dbs1 \<and>
    length (concat (map snd dbs2)) = 9 \<and>
    in_time (d1 + sum_list (map fst dbs1) + d2 + 5 * Second) 9 0
      (d1 + sum_list (map fst dbs1) + d2) dbs2 \<longrightarrow>
      Scan cls default_scanner
        (peer (one_byte (d1, 0x05) # map chunk_of dbs1 @ one_byte (d2, 0x09) # map chunk_of dbs2))
      = Some ((SCAN_SUCCESS,
               Some \<lparr>Banner1 = lower_hex (concat (map snd dbs1)),
                     Banner2 = lower_hex (concat (map snd dbs2))\<rparr>, None),
              hung_up (d1 + sum_list (map fst dbs1) + d2 + sum_list (map fst dbs2)) [] []
                [0x0A, 0x0A]))"
proof (intro conjI impI)
  assume a: "Scan cls s target = Some ((status, Some res, err), c)"
  from Scan_cases [OF a]
  obtain data c1 data2 c2 where
    "round1 cls s (open_conn target) = Some (Inr data, c1)"
    "round2 cls s c1 = Some (Inr data2, c2)"
    "Some res = Some \<lparr>Banner1 = EncodeToString data, Banner2 = EncodeToString data2\<rparr>"
    by auto
  then show "\<exists>data c1 data2 c2.
          round1 cls s (open_conn target) = Some (Inr data, c1) \<and>
          round2 cls s c1 = Some (Inr data2, c2) \<and>
          Banner1 res = lower_hex data \<and> Banner2 res = lower_hex data2"
    by (auto simp: EncodeToString_lower_hex)
next
  show "EncodeToString bs = lower_hex bs" by (rule EncodeToString_lower_hex)
next
  show "EncodeToString [] = ''''" by (simp add: EncodeToString_def)
next
  show "json_fields \<lparr>Banner1 = EncodeToString [], Banner2 = EncodeToString []\<rparr> = []"
    by (simp add: json_fields_def EncodeToString_def)
next
  assume "length (concat (map snd dbs1)) = 5 \<and> in_time (d1 + 5 * Second) 5 0 d1 dbs1 \<and>
    length (concat (map snd dbs2)) = 9 \<and>
    in_time (d1 + sum_list (map fst dbs1) + d2 + 5 * Second) 9 0
      (d1 + sum_list (map fst dbs1) + d2) dbs2"
  then show "Scan cls default_scanner
        (peer (one_byte (d1, 0x05) # map chunk_of dbs1 @ one_byte (d2, 0x09) # map chunk_of dbs2))
      = Some ((SCAN_SUCCESS,
               Some \<lparr>Banner1 = lower_hex (concat (map snd dbs1)),
                     Banner2 = lower_hex (concat (map snd dbs2))\<rparr>, None),
              hung_up (d1 + sum_list (map fst dbs1) + d2 + sum_list (map fst dbs2)) [] []
                [0x0A, 0x0A])"
    using end_to_end [of dbs1 d1 dbs2 d2 cls] by (simp add: EncodeToString_lower_hex)
qed

theorem banners_lower_hex_witness:
  "Scan transport_status default_scanner
     (peer (one_byte (10, 0x05) # map chunk_of [(1000, [0xDE, 0xAD]), (2000, [0xBE, 0xEF, 0x00])]
            @ one_byte (20, 0x09) # map chunk_of [(3000, [1, 2, 3, 4, 5, 6, 7, 8, 0x9F])]))
   = Some ((SCAN_SUCCESS,
            Some \<lparr>Banner1 = ''deadbeef00'', Banner2 = ''01020304050607089f''\<rparr>, None),
           hung_up 6030 [] [] [0x0A, 0x0A]) \<and>
   (\<exists>data c1 data2 c2.
       round1 transport_status default_scanner
         (open_conn (peer (one_byte (10, 0x05)
            # map chunk_of [(1000, [0xDE, 0xAD]), (2000, [0xBE, 0xEF, 0x00])]
            @ one_byte (20, 0x09) # map chunk_of [(3000, [1, 2, 3, 4, 5, 6, 7, 8, 0x9F])])))
         = Some (Inr data, c1) \<and>
       round2 transport_status default_scanner c1 = Some (Inr data2, c2) \<and>
       ''deadbeef00'' = lower_hex data \<and> ''01020304050607089f'' = lower_hex data2)"
proof -
  let ?t = "peer (one_byte (10, 0x05) # map chunk_of [(1000, [0xDE, 0xAD]), (2000, [0xBE, 0xEF, 0x00])]
            @ one_byte (20, 0x09) # map chunk_of [(3000, [1, 2, 3, 4, 5, 6, 7, 8, 0x9F])])"
  note inst = banners_lower_hex [of transport_status default_scanner ?t SCAN_SUCCESS
      "\<lparr>Banner1 = ''deadbeef00'', Banner2 = ''01020304050607089f''\<rparr>" None
      "hung_up 6030 [] [] [0x0A, 0x0A]" "[]"
      "[(1000, [0xDE, 0xAD]), (2000, [0xBE, 0xEF, 0x00])]" 10
      "[(3000, [1, 2, 3, 4, 5, 6, 7, 8, 0x9F])]" 20]
  have run: "Scan transport_status default_scanner ?t
     = Some ((SCAN_SUCCESS,
            Some \<lparr>Banner1 = ''deadbeef00'', Banner2 = ''01020304050607089f''\<rparr>, None),
           hung_up 6030 [] [] [0x0A, 0x0A])"
    using inst by (simp add: Second_def lower_hex_def lower_hex_digit_def)
  with inst show ?thesis by simp
qed

end
